theory Spec2Isabelle
  imports Complex_Main "HOL-Library.Word"
begin

unbundle bit_operations_syntax

section \<open>The EnergyGrid client (client/client.js)\<close>

text \<open>
  The client fetches telemetry for a population of devices in batches, one signed
  request per batch, through a rate-limited queue, retrying rate-limit rejections and
  refused connections. Numbers of the source are integers here (\<open>int\<close>; counts of
  elements are \<open>nat\<close>), strings are \<open>string\<close>, a rejected promise or a thrown
  exception is the \<open>Inl\<close> of a sum, and the two effects of the program, the clock and
  the network, are threaded through an explicit \<open>world\<close>.
\<close>

subsection \<open>Configuration\<close>

record config =
  API_URL :: string
  TOKEN :: string
  RATE_LIMIT_MS :: int
  BATCH_SIZE :: int
  MAX_RETRIES :: int
  RETRY_DELAY_MS :: int

text \<open>The object \<open>CONFIG\<close> of the source. The functions below take the configuration
  as a parameter, so that a property can be stated for every configuration.\<close>

definition CONFIG :: config where
  "CONFIG = \<lparr> API_URL = ''http://localhost:3000/device/real/query'',
              TOKEN = ''interview_token_123'',
              RATE_LIMIT_MS = 1000,
              BATCH_SIZE = 10,
              MAX_RETRIES = 3,
              RETRY_DELAY_MS = 2000 \<rparr>"

subsection \<open>Numbers as decimal strings\<close>

definition digit_char :: "nat \<Rightarrow> char" where
  "digit_char d = char_of (48 + d)"

text \<open>\<open>String(n)\<close> and \<open>n.toString()\<close> for a non-negative integer.\<close>

fun digits :: "nat \<Rightarrow> string" where
  "digits n = (if n < 10 then [digit_char n] else digits (n div 10) @ [digit_char (n mod 10)])"

declare digits.simps [simp del]

definition toString :: "int \<Rightarrow> string" where
  "toString i = (if i < 0 then CHR ''-'' # digits (nat (- i)) else digits (nat i))"

text \<open>The number a string of decimal digits stands for; it reads back what \<open>digits\<close>
  writes.\<close>

definition digit_value :: "char \<Rightarrow> nat" where
  "digit_value c = of_char c - 48"

definition decimal_value :: "string \<Rightarrow> nat" where
  "decimal_value s = foldl (\<lambda>a c. 10 * a + digit_value c) 0 s"

text \<open>\<open>s.padStart(n, c)\<close> for a one-character pad string.\<close>

definition padStart :: "nat \<Rightarrow> char \<Rightarrow> string \<Rightarrow> string" where
  "padStart n c s = replicate (n - length s) c @ s"

subsection \<open>Signature\<close>

text \<open>
  The MD5 function is the platform's (\<open>crypto.createHash('md5')\<close>): it is a parameter,
  a function from the bytes hashed to the 16 bytes of the digest, read as one 128-bit
  value with the first byte of the digest highest. \<open>digest('hex')\<close> renders the 16 bytes
  as two lowercase hexadecimal digits each.
\<close>

type_synonym digest = "128 word"

definition hex_char :: "nat \<Rightarrow> char" where
  "hex_char n = ''0123456789abcdef'' ! (n mod 16)"

definition digest_hex :: "digest \<Rightarrow> string" where
  "digest_hex d = map (\<lambda>i. hex_char (unat (drop_bit (4 * (31 - i)) d AND 15))) [0..<32]"

text \<open>
  Reading a string of hexadecimal digits back as a number, the first digit highest; and
  the \<open>k\<close> lowest hexadecimal digits of a number, the highest first. They are used to
  state what \<open>digest_hex\<close> renders.
\<close>

definition hex_digit_value :: "char \<Rightarrow> nat" where
  "hex_digit_value c = (if of_char c < (58::nat) then of_char c - 48 else of_char c - 87)"

definition hex_value :: "string \<Rightarrow> nat" where
  "hex_value s = foldl (\<lambda>a c. 16 * a + hex_digit_value c) 0 s"

fun hex_digits :: "nat \<Rightarrow> nat \<Rightarrow> string" where
  "hex_digits 0 n = []"
| "hex_digits (Suc k) n = hex_digits k (n div 16) @ [hex_char (n mod 16)]"

definition generateSignature :: "(string \<Rightarrow> digest) \<Rightarrow> string \<Rightarrow> string \<Rightarrow> string \<Rightarrow> string" where
  "generateSignature md5 url token timestamp =
     (let data = url @ token @ timestamp in digest_hex (md5 data))"

subsection \<open>Serial numbers and batches\<close>

function generateSerialNumbers_loop :: "int \<Rightarrow> int \<Rightarrow> string list \<Rightarrow> string list" where
  "generateSerialNumbers_loop count i serialNumbers =
     (if i < count
      then generateSerialNumbers_loop count (i + 1)
             (serialNumbers @ [''SN-'' @ padStart 3 (CHR ''0'') (toString i)])
      else serialNumbers)"
  by pat_completeness auto
termination
  by (relation "measure (\<lambda>(count, i, serialNumbers). nat (count - i))") auto

declare generateSerialNumbers_loop.simps [simp del]

definition generateSerialNumbers :: "int \<Rightarrow> string list" where
  "generateSerialNumbers count = generateSerialNumbers_loop count 0 []"

text \<open>
  \<open>Array.prototype.slice(start, end)\<close> on integer arguments: a negative index counts
  from the end of the array, and both ends are clamped to the array.
\<close>

definition array_slice :: "'a list \<Rightarrow> int \<Rightarrow> int \<Rightarrow> 'a list" where
  "array_slice array start end =
     (let len = int (length array);
          k = (if start < 0 then max (len + start) 0 else min start len);
          final = (if end < 0 then max (len + end) 0 else min end len)
      in take (nat (final - k)) (drop (nat k) array))"

text \<open>
  The loop of \<open>createBatches\<close>. Nothing in the source bounds it when \<open>batchSize\<close> is
  not positive, so it is a partial function: \<open>None\<close> is the loop that never ends.
\<close>

partial_function (option) createBatches_loop ::
  "'a list \<Rightarrow> int \<Rightarrow> int \<Rightarrow> 'a list list \<Rightarrow> 'a list list option" where
  "createBatches_loop array batchSize i batches =
     (if i < int (length array)
      then createBatches_loop array batchSize (i + batchSize)
             (batches @ [array_slice array i (i + batchSize)])
      else Some batches)"

declare createBatches_loop.simps [code]

definition createBatches :: "'a list \<Rightarrow> int \<Rightarrow> 'a list list option" where
  "createBatches array batchSize = createBatches_loop array batchSize 0 []"

subsection \<open>The platform: clock, timers, network\<close>

text \<open>
  An error value of the source: \<open>error.response?.status\<close>, \<open>error.code\<close> and
  \<open>error.message\<close>. An error that carries no HTTP response has no status.
\<close>

record error =
  response_status :: "nat option"
  code :: "string option"
  message :: string

record reading =
  sn :: string
  power :: string
  status :: string
  last_updated :: string

text \<open>The body of a response, \<open>response.data\<close>; its field \<open>data\<close> is \<open>None\<close>
  when the body has no list there.\<close>

record body =
  data :: "reading list option"

record request =
  sn_list :: "string list"
  signature :: string
  timestamp :: string

text \<open>What the network does with one call: how long the call takes and how it ends.\<close>

record reply =
  took :: nat
  outcome :: "error + body"

text \<open>
  The platform is a parameter of the program: the hash function, the URL parser
  (\<open>None\<close> when \<open>new URL\<close> throws), the reply of the network to its \<open>n\<close>-th call
  (counted from 0) and the timers: \<open>fires E n d\<close> is how far \<open>Date.now()\<close> has
  advanced when the \<open>n\<close>-th timer, set for a delay of \<open>d\<close> milliseconds, fires. The
  platform does not promise that this is at least \<open>d\<close>: measured with \<open>Date.now()\<close>,
  a timer can fire before its delay has passed.
\<close>

record env =
  md5 :: "string \<Rightarrow> digest"
  pathname :: "string \<Rightarrow> string option"
  respond :: "nat \<Rightarrow> request \<Rightarrow> reply"
  fires :: "nat \<Rightarrow> int \<Rightarrow> nat"

text \<open>
  The state of the world: the value of \<open>Date.now()\<close>, the network calls issued so far,
  each with the time of its issue, and the durations asked of \<open>sleep\<close> so far. Time
  passes where the program awaits: in a timer and in a network call.
\<close>

record world =
  clock :: int
  calls :: "(int \<times> request) list"
  sleeps :: "int list"

text \<open>
  \<open>setTimeout\<close> honours a delay from 1 to 2147483647 milliseconds; any other delay
  is replaced by 1.
\<close>

definition timeout_delay :: "int \<Rightarrow> int" where
  "timeout_delay ms = (if 1 \<le> ms \<and> ms \<le> 2147483647 then ms else 1)"

text \<open>\<open>sleep(ms)\<close>: a timer is set for \<open>ms\<close>, and the promise resolves when it fires.\<close>

definition sleep :: "env \<Rightarrow> int \<Rightarrow> world \<Rightarrow> world" where
  "sleep E ms w =
     w\<lparr> clock := clock w + int (fires E (length (sleeps w)) (timeout_delay ms)),
        sleeps := sleeps w @ [ms] \<rparr>"


text \<open>\<open>axios.post\<close>: the call is issued now and settles when the reply has arrived.\<close>

definition post :: "env \<Rightarrow> request \<Rightarrow> world \<Rightarrow> (error + body) \<times> world" where
  "post E req w =
     (let r = respond E (length (calls w)) req
      in (outcome r, w\<lparr> clock := clock w + int (took r), calls := calls w @ [(clock w, req)] \<rparr>))"

subsection \<open>One request, with retries\<close>

text \<open>The test of the \<open>catch\<close> block of \<open>makeRequest\<close>.\<close>

definition retryable :: "error \<Rightarrow> bool" where
  "retryable e = (response_status e = Some 429 \<or> code e = Some ''ECONNREFUSED'')"

definition invalid_url :: error where
  "invalid_url = \<lparr> response_status = None, code = Some ''ERR_INVALID_URL'', message = ''Invalid URL'' \<rparr>"

definition retries_failed :: "config \<Rightarrow> error \<Rightarrow> error" where
  "retries_failed cfg e =
     \<lparr> response_status = None, code = None,
       message = ''Failed after '' @ toString (MAX_RETRIES cfg) @ '' retries: '' @ message e \<rparr>"

function makeRequest :: "env \<Rightarrow> config \<Rightarrow> string list \<Rightarrow> int \<Rightarrow> world \<Rightarrow> (error + body) \<times> world" where
  "makeRequest E cfg snList retryCount w =
     (let timestamp = toString (clock w) in
      case pathname E (API_URL cfg) of
        None \<Rightarrow> (Inl invalid_url, w)
      | Some url \<Rightarrow>
         (let signature = generateSignature (md5 E) url (TOKEN cfg) timestamp in
          case post E \<lparr> sn_list = snList, signature = signature, timestamp = timestamp \<rparr> w of
            (Inr response_data, w') \<Rightarrow> (Inr response_data, w')
          | (Inl error, w') \<Rightarrow>
              if retryable error then
                if retryCount < MAX_RETRIES cfg
                then makeRequest E cfg snList (retryCount + 1) (sleep E (RETRY_DELAY_MS cfg) w')
                else (Inl (retries_failed cfg error), w')
              else (Inl error, w')))"
  by pat_completeness auto
termination
  by (relation "measure (\<lambda>(E, cfg, snList, retryCount, w). nat (MAX_RETRIES cfg - retryCount))") auto

declare makeRequest.simps [simp del]

subsection \<open>The rate-limited queue\<close>

record queue =
  rateLimitMs :: int
  lastRequestTime :: int

definition new_queue :: "int \<Rightarrow> queue" where
  "new_queue rateLimit = \<lparr> rateLimitMs = rateLimit, lastRequestTime = 0 \<rparr>"

text \<open>The world as \<open>execute\<close> leaves it when it records the admission: after the wait,
  if it waits.\<close>

definition admit :: "env \<Rightarrow> queue \<Rightarrow> world \<Rightarrow> world" where
  "admit E q w =
     (let now = clock w;
          timeSinceLastRequest = now - lastRequestTime q
      in if timeSinceLastRequest < rateLimitMs q
         then (let waitTime = rateLimitMs q - timeSinceLastRequest in sleep E waitTime w)
         else w)"

text \<open>\<open>execute(fn)\<close>: the operation \<open>fn\<close> runs on the world and ends with a result
  (\<open>Inr\<close>) or an exception (\<open>Inl\<close>).\<close>

definition execute ::
  "env \<Rightarrow> queue \<Rightarrow> (world \<Rightarrow> ('e + 'a) \<times> world) \<Rightarrow> world \<Rightarrow> ('e + 'a) \<times> queue \<times> world" where
  "execute E q fn w =
     (let w1 = admit E q w;
          q' = q\<lparr> lastRequestTime := clock w1 \<rparr>;
          (result, w2) = fn w1
      in (result, q', w2))"

subsection \<open>The aggregator\<close>

text \<open>The accumulators of \<open>fetchAllDeviceData\<close>.\<close>

record progress =
  allResults :: "reading list"
  successCount :: nat
  failureCount :: nat

text \<open>
  The body of the loop over the batches, for one batch: the \<open>try\<close> block ends in the
  \<open>catch\<close> block when the request fails and when the spread of \<open>result.data\<close> throws
  because there is no list to spread.
\<close>

definition fetch_batch ::
  "env \<Rightarrow> config \<Rightarrow> string list \<Rightarrow> queue \<times> progress \<times> world \<Rightarrow> queue \<times> progress \<times> world" where
  "fetch_batch E cfg batch s =
     (case s of (q, p, w) \<Rightarrow>
        (case execute E q (makeRequest E cfg batch 0) w of
           (Inr result, q', w') \<Rightarrow>
             (case data result of
                Some readings \<Rightarrow>
                  (q', p\<lparr> allResults := allResults p @ readings,
                          successCount := successCount p + length batch \<rparr>, w')
              | None \<Rightarrow> (q', p\<lparr> failureCount := failureCount p + length batch \<rparr>, w'))
         | (Inl error, q', w') \<Rightarrow>
             (q', p\<lparr> failureCount := failureCount p + length batch \<rparr>, w')))"

fun fetch_loop ::
  "env \<Rightarrow> config \<Rightarrow> string list list \<Rightarrow> queue \<times> progress \<times> world \<Rightarrow> queue \<times> progress \<times> world" where
  "fetch_loop E cfg [] s = s"
| "fetch_loop E cfg (batch # batches) s = fetch_loop E cfg batches (fetch_batch E cfg batch s)"

text \<open>
  What \<open>fetchAllDeviceData\<close> returns, without the formatted duration: the accumulators,
  the size of the population and the two statistics.
\<close>

record summary = progress +
  totalDevices :: nat
  online :: nat
  offline :: nat

text \<open>
  \<open>fetchAllDeviceData\<close> for a configuration and a population size; the source runs it
  on \<open>CONFIG\<close> and 500 devices. The result is \<open>None\<close> when \<open>createBatches\<close> does not
  return.
\<close>

definition fetchAllDeviceData_of :: "env \<Rightarrow> config \<Rightarrow> int \<Rightarrow> world \<Rightarrow> (summary \<times> world) option" where
  "fetchAllDeviceData_of E cfg count w =
     (let serialNumbers = generateSerialNumbers count in
      case createBatches serialNumbers (BATCH_SIZE cfg) of
        None \<Rightarrow> None
      | Some batches \<Rightarrow>
          (let queue = new_queue (RATE_LIMIT_MS cfg);
               (q, p, w') = fetch_loop E cfg batches
                              (queue, \<lparr> allResults = [], successCount = 0, failureCount = 0 \<rparr>, w);
               onlineDevices = length (filter (\<lambda>d. status d = ''Online'') (allResults p));
               offlineDevices = length (filter (\<lambda>d. status d = ''Offline'') (allResults p))
           in Some (\<lparr> allResults = allResults p,
                       successCount = successCount p,
                       failureCount = failureCount p,
                       totalDevices = length serialNumbers,
                       online = onlineDevices,
                       offline = offlineDevices \<rparr>, w')))"

definition fetchAllDeviceData :: "env \<Rightarrow> world \<Rightarrow> (summary \<times> world) option" where
  "fetchAllDeviceData E w = fetchAllDeviceData_of E CONFIG 500 w"

subsection \<open>Callers of the queue\<close>


subsection \<open>The outcomes of the requests of a run\<close>

text \<open>
  The requests of a run, one batch after the other through the queue, as
  \<open>fetchAllDeviceData\<close> issues them, with the outcome of each: the body returned or the
  error thrown. The counts of \<open>fetchAllDeviceData\<close> are compared with these outcomes
  below.
\<close>

fun run_requests ::
  "env \<Rightarrow> config \<Rightarrow> string list list \<Rightarrow> queue \<times> world \<Rightarrow> (error + body) list \<times> queue \<times> world" where
  "run_requests E cfg [] s = (case s of (q, w) \<Rightarrow> ([], q, w))"
| "run_requests E cfg (batch # batches) s =
     (case s of (q, w) \<Rightarrow>
        (case execute E q (makeRequest E cfg batch 0) w of
           (result, q', w') \<Rightarrow>
             (case run_requests E cfg batches (q', w') of
                (results, q'', w'') \<Rightarrow> (result # results, q'', w''))))"

text \<open>The readings an outcome delivers: none when the request failed, of either kind, and
  none when the body has no list.\<close>

definition delivered :: "error + body \<Rightarrow> reading list option" where
  "delivered result = (case result of Inl e \<Rightarrow> None | Inr b \<Rightarrow> data b)"

text \<open>
  The result of the Aggregator of the specification for the batches and the outcomes of
  their requests: the identifiers of a batch count as resolved when its request
  delivered readings and as failed otherwise, and the readings are those delivered, in
  the order of the batches.
\<close>

definition resolved_count :: "string list list \<Rightarrow> (error + body) list \<Rightarrow> nat" where
  "resolved_count batches outcomes =
     sum_list (map (\<lambda>(batch, result). if delivered result = None then 0 else length batch)
                   (zip batches outcomes))"

definition failed_count :: "string list list \<Rightarrow> (error + body) list \<Rightarrow> nat" where
  "failed_count batches outcomes =
     sum_list (map (\<lambda>(batch, result). if delivered result = None then length batch else 0)
                   (zip batches outcomes))"

definition readings_of :: "(error + body) list \<Rightarrow> reading list" where
  "readings_of outcomes =
     concat (map (\<lambda>result. case delivered result of None \<Rightarrow> [] | Some readings \<Rightarrow> readings)
                 outcomes)"

subsection \<open>The signed request as the specification describes it\<close>

text \<open>
  The SignedRequest of the specification for a batch, at the time \<open>t\<close> of an attempt: the
  timestamp is the time of the attempt, and the signature is computed from the path, the
  secret and that timestamp. It is compared below with the requests that \<open>makeRequest\<close>
  issues.
\<close>

definition request_at :: "env \<Rightarrow> config \<Rightarrow> string \<Rightarrow> string list \<Rightarrow> int \<Rightarrow> request" where
  "request_at E cfg url snList t =
     \<lparr> sn_list = snList,
       signature = generateSignature (md5 E) url (TOKEN cfg) (toString t),
       timestamp = toString t \<rparr>"

subsection \<open>The batches as the specification describes them\<close>

text \<open>
  The Batcher of the specification: \<open>ceil(n/b)\<close> batches, batch \<open>i\<close> holding the
  identifiers at positions \<open>[i*b, min((i+1)*b, n))\<close>. It is compared with
  \<open>createBatches\<close> below.
\<close>

definition spec_batches :: "nat \<Rightarrow> 'a list \<Rightarrow> 'a list list" where
  "spec_batches b xs = map (\<lambda>i. take b (drop (i * b) xs)) [0..<(length xs + b - 1) div b]"


subsection \<open>A platform to run the program on\<close>

text \<open>
  Concrete platforms and operations, on which the theorems below are instantiated: a
  network given by its replies, timers that fire exactly when their delay has passed, a
  stand-in for the hash function (the number written in decimal after the first 37
  bytes, which are the path and the secret of \<open>CONFIG\<close>), and the replies of the mock
  server (a rejection with an HTTP status, a refused connection, a host that cannot be
  reached, a reading for each serial number asked).
\<close>

definition test_env :: "(nat \<Rightarrow> request \<Rightarrow> reply) \<Rightarrow> env" where
  "test_env net =
     \<lparr> md5 = (\<lambda>s. word_of_nat (decimal_value (drop 37 s))),
       pathname = (\<lambda>u. if u = API_URL CONFIG then Some ''/device/real/query'' else None),
       respond = net,
       fires = (\<lambda>n d. nat d) \<rparr>"


definition rejected :: "nat \<Rightarrow> nat \<Rightarrow> reply" where
  "rejected ms st =
     \<lparr> took = ms,
       outcome = Inl \<lparr> response_status = Some st, code = Some ''ERR_BAD_REQUEST'',
                       message = ''Request failed with status code '' @ digits st \<rparr> \<rparr>"



definition accepted :: "nat \<Rightarrow> request \<Rightarrow> reply" where
  "accepted ms req =
     \<lparr> took = ms,
       outcome = Inr \<lparr> data = Some (map (\<lambda>s. \<lparr> sn = s, power = ''1.00 kW'', status = ''Online'',
                                                last_updated = ''2026-02-04T10:30:00.000Z'' \<rparr>)
                                     (sn_list req)) \<rparr> \<rparr>"

definition world_at :: "int \<Rightarrow> world" where
  "world_at t = \<lparr> clock = t, calls = [], sleeps = [] \<rparr>"


text \<open>A network that gives a fixed reply to its first call and accepts every later
  call.\<close>

definition first_then :: "reply \<Rightarrow> nat \<Rightarrow> request \<Rightarrow> reply" where
  "first_then r0 n r = (if n = 0 then r0 else accepted 5 r)"

section \<open>Batching\<close>

subsection \<open>The loop of \<open>createBatches\<close> computes the specified batches\<close>

lemma array_slice_nat:
  "array_slice xs (int i) (int j) = take (min j (length xs) - min i (length xs)) (drop (min i (length xs)) xs)"
  by (simp add: array_slice_def Let_def nat_diff_distrib' min_def)

lemma array_slice_chunk:
  assumes "i < length xs"
  shows "array_slice xs (int i) (int i + int b) = take b (drop i xs)"
proof -
  have "array_slice xs (int i) (int (i + b)) = take (min (i + b) (length xs) - i) (drop i xs)"
    using assms by (simp only: array_slice_nat) simp
  also have "\<dots> = take b (drop i xs)"
    by (cases "i + b \<le> length xs") (simp_all add: min_def)
  finally show ?thesis by simp
qed

lemma ceil_less_iff:
  assumes "0 < (b::nat)"
  shows "k < (n + b - 1) div b \<longleftrightarrow> k * b < n"
proof -
  have "k < (n + b - 1) div b \<longleftrightarrow> Suc k \<le> (n + b - 1) div b" by auto
  also have "\<dots> \<longleftrightarrow> Suc k * b \<le> n + b - 1"
    using assms by (simp only: less_eq_div_iff_mult_less_eq)
  also have "\<dots> \<longleftrightarrow> k * b < n" using assms by auto
  finally show ?thesis .
qed

lemma createBatches_loop_spec:
  assumes "0 < b" and "k \<le> (length xs + b - 1) div b"
  shows "createBatches_loop xs (int b) (int (k * b)) (map (\<lambda>i. take b (drop (i * b) xs)) [0..<k])
         = Some (spec_batches b xs)"
  using assms(2)
proof (induction "(length xs + b - 1) div b - k" arbitrary: k)
  case 0
  then have k: "k = (length xs + b - 1) div b" by simp
  have "\<not> k * b < length xs" using ceil_less_iff [OF assms(1), of k "length xs"] k by simp
  then have "\<not> int (k * b) < int (length xs)" by (simp del: of_nat_mult)
  then show ?case
    by (subst createBatches_loop.simps) (simp add: spec_batches_def k del: of_nat_mult)
next
  case (Suc d)
  then have lt: "k < (length xs + b - 1) div b" by simp
  then have kb: "k * b < length xs" using ceil_less_iff [OF assms(1)] by simp
  then have kb': "int (k * b) < int (length xs)" by (simp only: of_nat_less_iff) 
  have step: "createBatches_loop xs (int b) (int (Suc k * b))
                (map (\<lambda>i. take b (drop (i * b) xs)) [0..<Suc k]) = Some (spec_batches b xs)"
    using Suc lt by (intro Suc.hyps(1)) auto
  have e: "int (k * b) + int b = int (Suc k * b)" by (simp add: algebra_simps)
  show ?case
    using kb' step array_slice_chunk [OF kb, of b]
    by (subst createBatches_loop.simps) (simp add: e del: of_nat_mult of_nat_add)
qed

lemma createBatches_spec:
  assumes "0 < b"
  shows "createBatches xs (int b) = Some (spec_batches b xs)"
  using createBatches_loop_spec [OF assms, of 0 xs] by (simp add: createBatches_def)

lemma createBatches_loop_diverges:
  assumes "createBatches_loop xs b i acc = Some y"
  shows "\<not> (b \<le> 0 \<and> i < int (length xs))"
proof (rule createBatches_loop.raw_induct
         [where P = "\<lambda>xs b i acc y. \<not> (b \<le> 0 \<and> i < int (length xs))", OF _ assms])
  fix loop :: "'a list \<Rightarrow> int \<Rightarrow> int \<Rightarrow> 'a list list \<Rightarrow> 'a list list option"
  fix xs b i acc y
  assume IH: "\<And>xs b i acc y. loop xs b i acc = Some y \<Longrightarrow> \<not> (b \<le> 0 \<and> i < int (length xs))"
  assume eq: "(if i < int (length xs)
                then loop xs b (i + b) (acc @ [array_slice xs i (i + b)])
                else Some acc) = Some y"
  show "\<not> (b \<le> 0 \<and> i < int (length xs))"
  proof
    assume a: "b \<le> 0 \<and> i < int (length xs)"
    with eq have "loop xs b (i + b) (acc @ [array_slice xs i (i + b)]) = Some y" by simp
    from IH [OF this] a show False by simp
  qed
qed

lemma createBatches_nonpositive:
  assumes "b \<le> 0"
  shows "createBatches xs b = (if xs = [] then Some [] else None)"
proof (cases "xs = []")
  case True
  then show ?thesis
    by (simp add: createBatches_def createBatches_loop.simps)
next
  case False
  have "createBatches_loop xs b 0 [] = None"
  proof (cases "createBatches_loop xs b 0 []")
    case (Some y)
    from createBatches_loop_diverges [OF this] assms False show ?thesis by simp
  qed simp
  with False show ?thesis by (simp add: createBatches_def)
qed

lemma ceil_times_ge:
  assumes "0 < (b::nat)" shows "n \<le> ((n + b - 1) div b) * b"
  using ceil_less_iff [OF assms, of "(n + b - 1) div b" n] by simp

lemma concat_chunks_take:
  "concat (map (\<lambda>i. take b (drop (i * b) xs)) [0..<c]) = take (c * b) xs"
proof (induction c)
  case 0
  show ?case by simp
next
  case (Suc c)
  have "take (c * b + b) xs = take (c * b) xs @ take b (drop (c * b) xs)"
    by (rule take_add)
  with Suc show ?case by (simp add: add.commute)
qed

lemma concat_spec_batches:
  assumes "0 < b" shows "concat (spec_batches b xs) = xs"
  using ceil_times_ge [OF assms, of "length xs"]
  by (simp add: spec_batches_def concat_chunks_take)

lemma length_spec_batches: "length (spec_batches b xs) = (length xs + b - 1) div b"
  by (simp add: spec_batches_def)

lemma nth_spec_batches:
  assumes "i < length (spec_batches b xs)"
  shows "spec_batches b xs ! i = take b (drop (i * b) xs)"
  using assms by (simp add: spec_batches_def)

lemma take_drop_positions:
  "take b (drop m xs) = map ((!) xs) [m..<min (m + b) (length xs)]"
proof (rule nth_equalityI)
  show "length (take b (drop m xs)) = length (map ((!) xs) [m..<min (m + b) (length xs)])"
    by auto
next
  fix i
  assume "i < length (take b (drop m xs))"
  then have i: "i < b" "m + i < length xs" by auto
  then have "m + i < min (m + b) (length xs)" by simp
  then have "map ((!) xs) [m..<min (m + b) (length xs)] ! i = xs ! (m + i)"
    by (subst nth_map) (simp_all add: less_diff_conv add.commute)
  with i show "take b (drop m xs) ! i = map ((!) xs) [m..<min (m + b) (length xs)] ! i"
    by simp
qed

lemma full_spec_batches:
  assumes "0 < b" and "Suc i < length (spec_batches b xs)"
  shows "length (spec_batches b xs ! i) = b"
proof -
  from assms have "Suc i * b < length xs"
    using ceil_less_iff [OF assms(1), of "Suc i" "length xs"] by (simp add: length_spec_batches)
  then have "b \<le> length xs - i * b" by simp
  moreover have "i < length (spec_batches b xs)" using assms(2) by simp
  ultimately show ?thesis by (simp add: nth_spec_batches)
qed

lemma bounded_spec_batches:
  assumes "batch \<in> set (spec_batches b xs)"
  shows "length batch \<le> b"
  using assms by (auto simp: spec_batches_def)

lemma nat_ceiling_div:
  assumes "0 < (b::nat)"
  shows "\<lceil>real n / real b\<rceil> = int ((n + b - 1) div b)"
proof -
  define c where "c = (n + b - 1) div b"
  have up: "n \<le> c * b" unfolding c_def by (rule ceil_times_ge [OF assms])
  have lo: "c * b < n + b"
  proof (cases c)
    case 0
    with assms show ?thesis by simp
  next
    case (Suc k)
    then have "k < (n + b - 1) div b" by (simp add: c_def)
    then have "k * b < n" using ceil_less_iff [OF assms] by simp
    with Suc show ?thesis by simp
  qed
  have b: "0 < real b" using assms by simp
  from up have "real n \<le> real (c * b)" by (simp only: of_nat_le_iff)
  then have "real n \<le> real c * real b" by simp
  then have 1: "real n / real b \<le> real c" using b by (simp add: pos_divide_le_eq)
  from lo have "real (c * b) < real (n + b)" by (simp only: of_nat_less_iff)
  then have "(real c - 1) * real b < real n" by (simp add: algebra_simps)
  then have 2: "real c - 1 < real n / real b" using b by (simp add: pos_less_divide_eq)
  have "\<lceil>real n / real b\<rceil> = int c"
    using 1 2 by (simp add: ceiling_eq_iff)
  then show ?thesis by (simp add: c_def)
qed

subsection \<open>Claim C2\<close>

text \<open>
  C2: for every list of \<open>n\<close> identifiers and every batch size \<open>b > 0\<close>,
  \<open>createBatches\<close> returns exactly \<open>ceil(n/b)\<close> batches; batch \<open>i\<close> is the input at
  positions \<open>[i*b, min((i+1)*b, n))\<close> in the original order; the concatenation of the
  batches is the input; every batch but possibly the last has exactly \<open>b\<close> elements,
  and no batch has more than \<open>b\<close>.
\<close>

theorem createBatches_partition:
  assumes "0 < batchSize"
  shows "\<exists>batches. createBatches array batchSize = Some batches
           \<and> int (length batches) = \<lceil>real (length array) / real_of_int batchSize\<rceil>
           \<and> (\<forall>i < length batches.
                 batches ! i = map ((!) array)
                   [i * nat batchSize ..< min ((i + 1) * nat batchSize) (length array)])
           \<and> concat batches = array
           \<and> (\<forall>i. Suc i < length batches \<longrightarrow> length (batches ! i) = nat batchSize)
           \<and> (\<forall>batch \<in> set batches. length batch \<le> nat batchSize)"
proof -
  define b where "b = nat batchSize"
  have b: "0 < b" and bs: "batchSize = int b" using assms by (simp_all add: b_def)
  let ?batches = "spec_batches b array"
  have 1: "createBatches array batchSize = Some ?batches"
    unfolding bs by (rule createBatches_spec [OF b])
  have 2: "int (length ?batches) = \<lceil>real (length array) / real_of_int batchSize\<rceil>"
    using nat_ceiling_div [OF b, of "length array"] by (simp add: bs length_spec_batches)
  have 3: "\<forall>i < length ?batches.
             ?batches ! i = map ((!) array) [i * b ..< min ((i + 1) * b) (length array)]"
    by (simp add: nth_spec_batches take_drop_positions add.commute)
  have 4: "concat ?batches = array" by (rule concat_spec_batches [OF b])
  have 5: "\<forall>i. Suc i < length ?batches \<longrightarrow> length (?batches ! i) = b"
    using full_spec_batches [OF b] by blast
  have 6: "\<forall>batch \<in> set ?batches. length batch \<le> b"
    using bounded_spec_batches by blast
  from 1 2 3 4 5 6 show ?thesis unfolding b_def by blast
qed

theorem createBatches_partition_witness:
  "(0::int) < 3 \<and> createBatches [''a'', ''b'', ''c'', ''d'', ''e'', ''f'', ''g''] 3
      = Some [[''a'', ''b'', ''c''], [''d'', ''e'', ''f''], [''g'']]
   \<and> \<lceil>real (length [''a'', ''b'', ''c'', ''d'', ''e'', ''f'', ''g'']) / real_of_int 3\<rceil> = 3"
proof -
  have h: "(0::int) < 3" by simp
  obtain batches where b: "createBatches [''a'', ''b'', ''c'', ''d'', ''e'', ''f'', ''g''] 3 = Some batches"
    and n: "int (length batches) = \<lceil>real (length [''a'', ''b'', ''c'', ''d'', ''e'', ''f'', ''g'']) / real_of_int 3\<rceil>"
    using createBatches_partition [OF h, of "[''a'', ''b'', ''c'', ''d'', ''e'', ''f'', ''g'']"] by blast
  have v: "createBatches [''a'', ''b'', ''c'', ''d'', ''e'', ''f'', ''g''] 3
      = Some [[''a'', ''b'', ''c''], [''d'', ''e'', ''f''], [''g'']]"
    by (simp add: createBatches_def createBatches_loop.simps array_slice_def)
  with b have "batches = [[''a'', ''b'', ''c''], [''d'', ''e'', ''f''], [''g'']]" by simp
  with n v h show ?thesis by simp
qed

subsection \<open>Claim C9\<close>

text \<open>
  C9 says that \<open>createBatches\<close> fails when the size is not positive. The source has no
  check of the size: with a size of 0 or below, an empty input is returned as no batches
  at all, and the loop over a non-empty input never ends.
\<close>

theorem createBatches_no_failure_counterexample:
  "createBatches ([] :: string list) 0 = Some [] \<and> createBatches ([] :: string list) (- 1) = Some []
   \<and> createBatches [''SN-000''] 0 = None"
  using createBatches_nonpositive [of 0 "[] :: string list"]
    createBatches_nonpositive [of "- 1" "[] :: string list"]
    createBatches_nonpositive [of 0 "[''SN-000'']"]
  by simp

text \<open>
  C9, amended: \<open>createBatches\<close> signals no failure of its own. For every input list and
  every size \<open>> 0\<close> it terminates and returns a value; with a size \<open>\<le> 0\<close> it returns
  the empty list of batches for an empty input, and for a non-empty input its loop does
  not terminate.
\<close>

theorem createBatches_returns:
  "(0 < batchSize \<longrightarrow> (\<exists>batches. createBatches array batchSize = Some batches))
   \<and> (batchSize \<le> 0 \<longrightarrow> createBatches array batchSize = (if array = [] then Some [] else None))"
proof (intro conjI impI)
  assume "0 < batchSize"
  then have "createBatches array (int (nat batchSize)) = Some (spec_batches (nat batchSize) array)"
    by (intro createBatches_spec) simp
  with \<open>0 < batchSize\<close> show "\<exists>batches. createBatches array batchSize = Some batches" by simp
next
  assume "batchSize \<le> 0"
  then show "createBatches array batchSize = (if array = [] then Some [] else None)"
    by (rule createBatches_nonpositive)
qed

theorem createBatches_returns_witness:
  "(\<exists>batches. createBatches [''SN-000'', ''SN-001'', ''SN-002''] 2 = Some batches)
   \<and> createBatches [''SN-000'', ''SN-001'', ''SN-002''] 0 = None
   \<and> createBatches ([] :: string list) 0 = Some []"
  using createBatches_returns [of 2 "[''SN-000'', ''SN-001'', ''SN-002'']"]
    createBatches_returns [of 0 "[''SN-000'', ''SN-001'', ''SN-002'']"]
    createBatches_returns [of 0 "[] :: string list"]
  by simp

section \<open>The signature\<close>

lemma hex_char_in: "hex_char n \<in> set ''0123456789abcdef''"
proof -
  have "n mod 16 < length ''0123456789abcdef''" by simp
  then show ?thesis unfolding hex_char_def by (rule nth_mem)
qed

lemma length_digest_hex: "length (digest_hex d) = 32"
  by (simp add: digest_hex_def)

lemma set_digest_hex: "set (digest_hex d) \<subseteq> set ''0123456789abcdef''"
  unfolding digest_hex_def using hex_char_in by auto

subsection \<open>The digits read back give the digest\<close>

lemma hex_digit_value_nth:
  assumes "j < 16"
  shows "hex_digit_value (''0123456789abcdef'' ! j) = j"
proof -
  from assms have "j = 0 \<or> j = 1 \<or> j = 2 \<or> j = 3 \<or> j = 4 \<or> j = 5 \<or> j = 6 \<or> j = 7
      \<or> j = 8 \<or> j = 9 \<or> j = 10 \<or> j = 11 \<or> j = 12 \<or> j = 13 \<or> j = 14 \<or> j = 15"
    by presburger
  then show ?thesis by (elim disjE) (simp_all add: hex_digit_value_def)
qed

lemma hex_digit_value_hex_char: "hex_digit_value (hex_char m) = m mod 16"
  unfolding hex_char_def by (rule hex_digit_value_nth) simp

lemma hex_value_hex_digits: "hex_value (hex_digits k n) = n mod 16 ^ k"
proof (induction k arbitrary: n)
  case 0
  show ?case by (simp add: hex_value_def)
next
  case (Suc k)
  from Suc [of "n div 16"]
  have "foldl (\<lambda>a c. 16 * a + hex_digit_value c) 0 (hex_digits k (n div 16)) = (n div 16) mod 16 ^ k"
    by (simp only: hex_value_def)
  then have "hex_value (hex_digits (Suc k) n) = 16 * ((n div 16) mod 16 ^ k) + n mod 16"
    by (simp add: hex_value_def hex_digit_value_hex_char)
  also have "\<dots> = n mod 16 ^ Suc k"
    by (simp add: mod_mult2_eq)
  finally show ?case .
qed

lemma hex_digits_positions:
  "hex_digits k n = map (\<lambda>i. hex_char ((n div 16 ^ (k - 1 - i)) mod 16)) [0..<k]"
proof (induction k arbitrary: n)
  case 0
  show ?case by simp
next
  case (Suc k)
  have "map (\<lambda>i. hex_char (((n div 16) div 16 ^ (k - 1 - i)) mod 16)) [0..<k]
        = map (\<lambda>i. hex_char ((n div 16 ^ (k - i)) mod 16)) [0..<k]"
  proof (rule map_cong [OF refl])
    fix i assume "i \<in> set [0..<k]"
    then have "k - i = Suc (k - 1 - i)" by auto
    then have "(16::nat) ^ (k - i) = 16 * 16 ^ (k - 1 - i)" by simp
    then show "hex_char (((n div 16) div 16 ^ (k - 1 - i)) mod 16) = hex_char ((n div 16 ^ (k - i)) mod 16)"
      by (simp add: div_mult2_eq)
  qed
  with Suc [of "n div 16"] show ?case by simp
qed

lemma unat_nibble: "unat (drop_bit k d AND 15) = (unat d div 2 ^ k) mod 16"
  for d :: digest
proof -
  have "drop_bit k d AND 15 = take_bit 4 (drop_bit k d)"
    by (simp add: take_bit_eq_mask mask_eq_exp_minus_1)
  then have "unat (drop_bit k d AND 15) = take_bit 4 (drop_bit k (unat d))"
    by (simp only: unsigned_take_bit_eq unat_drop_bit_eq)
  then show ?thesis by (simp add: take_bit_eq_mod drop_bit_eq_div)
qed

lemma digest_hex_digits: "digest_hex d = hex_digits 32 (unat d)"
proof -
  have "(2::nat) ^ (4 * j) = 16 ^ j" for j
    by (simp add: power_mult)
  then show ?thesis
    by (simp add: digest_hex_def hex_digits_positions unat_nibble del: upt.simps)
qed

lemma hex_value_digest_hex: "hex_value (digest_hex d) = unat d"
proof -
  have "unat d < 2 ^ 128" using unsigned_less [of d] by simp
  then have "unat d < 16 ^ 32" by simp
  then show ?thesis by (simp add: digest_hex_digits hex_value_hex_digits)
qed

lemma hex_digits_numeral:
  "hex_digits (numeral k) n = hex_digits (pred_numeral k) (n div 16) @ [hex_char (n mod 16)]"
proof -
  have "hex_digits (numeral k) n = hex_digits (Suc (pred_numeral k)) n"
    by (simp only: numeral_eq_Suc [of k])
  then show ?thesis by (simp only: hex_digits.simps)
qed

lemma digest_hex_inject: "digest_hex a = digest_hex b \<longleftrightarrow> a = b"
proof
  assume "digest_hex a = digest_hex b"
  then have "hex_value (digest_hex a) = hex_value (digest_hex b)" by (rule arg_cong)
  then have "unat a = unat b" by (simp only: hex_value_digest_hex)
  then show "a = b" by (rule word_unat_eq_iff [THEN iffD2])
qed simp

subsection \<open>Claim C7\<close>

text \<open>
  C7: for all strings path, secret and timestamp, \<open>generateSignature\<close> renders the
  digest of the concatenation path, secret, timestamp, in that order, as a string of 32
  lowercase hexadecimal digits: read back as a number in base 16, the string is the
  digest. It is a function of the hash function and the three strings and of nothing
  else, so the same inputs give the same output; and two signatures are equal exactly
  when the two digests are.
\<close>

theorem generateSignature_hex_digest:
  "word_of_nat (hex_value (generateSignature H path secret stamp)) = H (path @ secret @ stamp)
   \<and> hex_value (generateSignature H path secret stamp) = unat (H (path @ secret @ stamp))
   \<and> length (generateSignature H path secret stamp) = 32
   \<and> set (generateSignature H path secret stamp) \<subseteq> set ''0123456789abcdef''
   \<and> (generateSignature H path secret stamp = generateSignature H path' secret' stamp'
        \<longleftrightarrow> H (path @ secret @ stamp) = H (path' @ secret' @ stamp'))"
proof (intro conjI)
  let ?d = "H (path @ secret @ stamp)"
  have s: "generateSignature H path secret stamp = digest_hex ?d"
    by (simp add: generateSignature_def)
  have s': "generateSignature H path' secret' stamp' = digest_hex (H (path' @ secret' @ stamp'))"
    by (simp add: generateSignature_def)
  show v: "hex_value (generateSignature H path secret stamp) = unat ?d"
    unfolding s by (rule hex_value_digest_hex)
  show "word_of_nat (hex_value (generateSignature H path secret stamp)) = ?d"
    by (simp add: v)
  show "length (generateSignature H path secret stamp) = 32"
    unfolding s by (rule length_digest_hex)
  show "set (generateSignature H path secret stamp) \<subseteq> set ''0123456789abcdef''"
    unfolding s by (rule set_digest_hex)
  show "generateSignature H path secret stamp = generateSignature H path' secret' stamp'
        \<longleftrightarrow> ?d = H (path' @ secret' @ stamp')"
    by (simp only: s s' digest_hex_inject)
qed

theorem generateSignature_hex_digest_witness:
  "generateSignature (\<lambda>s. 0x0123456789abcdeffedcba9876543210) ''/device/real/query''
      ''interview_token_123'' ''1700000000000''
     = ''0123456789abcdeffedcba9876543210''
   \<and> hex_value ''0123456789abcdeffedcba9876543210''
       = unat (0x0123456789abcdeffedcba9876543210 :: digest)"
proof -
  let ?d = "0x0123456789abcdeffedcba9876543210 :: digest"
  let ?s = "generateSignature (\<lambda>s. ?d) ''/device/real/query'' ''interview_token_123'' ''1700000000000''"
  have "?s = hex_digits 32 (unat ?d)"
    by (simp add: generateSignature_def digest_hex_digits)
  also have "\<dots> = ''0123456789abcdeffedcba9876543210''"
    by (simp add: hex_digits_numeral hex_char_def)
  finally have v: "?s = ''0123456789abcdeffedcba9876543210''" .
  from generateSignature_hex_digest
    [of "\<lambda>s. ?d" "''/device/real/query''" "''interview_token_123''" "''1700000000000''"]
  have "hex_value ?s = unat ?d" by blast
  with v show ?thesis by simp
qed

section \<open>The rate-limited queue\<close>


subsection \<open>Timers\<close>


lemma timeout_delay_pos: "1 \<le> timeout_delay ms"
  by (simp add: timeout_delay_def)

lemma sleep_calls: "calls (sleep E ms w) = calls w"
  by (simp add: sleep_def)

lemma sleep_sleeps: "sleeps (sleep E ms w) = sleeps w @ [ms]"
  by (simp add: sleep_def)

lemma sleep_clock: "clock (sleep E ms w) = clock w + int (fires E (length (sleeps w)) (timeout_delay ms))"
  by (simp add: sleep_def)

lemma sleep_clock_mono: "clock w \<le> clock (sleep E ms w)"
  by (simp add: sleep_def)


subsection \<open>Admission\<close>



lemma admit_calls: "calls (admit E q w) = calls w"
  by (simp add: admit_def sleep_def Let_def)

lemma admit_clock_mono: "clock w \<le> clock (admit E q w)"
  by (simp add: admit_def sleep_def Let_def)


lemma execute_eq:
  "execute E q fn w =
     (fst (fn (admit E q w)), q\<lparr> lastRequestTime := clock (admit E q w) \<rparr>, snd (fn (admit E q w)))"
  by (simp add: execute_def Let_def split: prod.splits)




subsection \<open>Claim C1\<close>




subsection \<open>Claim C10\<close>




section \<open>Decimal strings\<close>










section \<open>One request, with retries\<close>

subsection \<open>One attempt\<close>

lemma post_fst: "fst (post E r w) = outcome (respond E (length (calls w)) r)"
  by (simp add: post_def Let_def)

lemma post_calls: "calls (snd (post E r w)) = calls w @ [(clock w, r)]"
  by (simp add: post_def Let_def)

lemma post_sleeps: "sleeps (snd (post E r w)) = sleeps w"
  by (simp add: post_def Let_def)

lemma post_clock: "clock w \<le> clock (snd (post E r w))"
  by (simp add: post_def Let_def)

lemma makeRequest_step:
  assumes "pathname E (API_URL cfg) = Some url"
  shows "makeRequest E cfg snList retryCount w =
     (case post E (request_at E cfg url snList (clock w)) w of
        (Inr b, w') \<Rightarrow> (Inr b, w')
      | (Inl e, w') \<Rightarrow>
          if retryable e then
            if retryCount < MAX_RETRIES cfg
            then makeRequest E cfg snList (retryCount + 1) (sleep E (RETRY_DELAY_MS cfg) w')
            else (Inl (retries_failed cfg e), w')
          else (Inl e, w'))"
  by (subst makeRequest.simps) (simp add: assms request_at_def Let_def)

lemma post_eq:
  assumes "outcome (respond E (length (calls w)) r) = x" and "w1 = snd (post E r w)"
  shows "post E r w = (x, w1)"
  using assms by (simp add: prod_eq_iff post_fst)

lemma makeRequest_success:
  assumes "pathname E (API_URL cfg) = Some url"
    and "outcome (respond E (length (calls w)) (request_at E cfg url snList (clock w))) = Inr b"
  shows "makeRequest E cfg snList retryCount w = (Inr b, snd (post E (request_at E cfg url snList (clock w)) w))"
proof -
  define w1 where "w1 = snd (post E (request_at E cfg url snList (clock w)) w)"
  note p = post_eq [OF assms(2) w1_def]
  show ?thesis unfolding w1_def [symmetric]
    by (subst makeRequest_step [OF assms(1)]) (simp add: p)
qed

lemma makeRequest_rejected:
  assumes "pathname E (API_URL cfg) = Some url"
    and "outcome (respond E (length (calls w)) (request_at E cfg url snList (clock w))) = Inl e"
    and "\<not> retryable e"
  shows "makeRequest E cfg snList retryCount w = (Inl e, snd (post E (request_at E cfg url snList (clock w)) w))"
proof -
  define w1 where "w1 = snd (post E (request_at E cfg url snList (clock w)) w)"
  note p = post_eq [OF assms(2) w1_def]
  show ?thesis unfolding w1_def [symmetric] using assms(3)
    by (subst makeRequest_step [OF assms(1)]) (simp add: p)
qed

lemma makeRequest_exhausted:
  assumes "pathname E (API_URL cfg) = Some url"
    and "outcome (respond E (length (calls w)) (request_at E cfg url snList (clock w))) = Inl e"
    and "retryable e" and "\<not> retryCount < MAX_RETRIES cfg"
  shows "makeRequest E cfg snList retryCount w
           = (Inl (retries_failed cfg e), snd (post E (request_at E cfg url snList (clock w)) w))"
proof -
  define w1 where "w1 = snd (post E (request_at E cfg url snList (clock w)) w)"
  note p = post_eq [OF assms(2) w1_def]
  show ?thesis unfolding w1_def [symmetric] using assms(3,4)
    by (subst makeRequest_step [OF assms(1)]) (simp add: p)
qed

lemma makeRequest_retry:
  assumes "pathname E (API_URL cfg) = Some url"
    and "outcome (respond E (length (calls w)) (request_at E cfg url snList (clock w))) = Inl e"
    and "retryable e" and "retryCount < MAX_RETRIES cfg"
  shows "makeRequest E cfg snList retryCount w
           = makeRequest E cfg snList (retryCount + 1)
               (sleep E (RETRY_DELAY_MS cfg) (snd (post E (request_at E cfg url snList (clock w)) w)))"
proof -
  define w1 where "w1 = snd (post E (request_at E cfg url snList (clock w)) w)"
  note p = post_eq [OF assms(2) w1_def]
  show ?thesis unfolding w1_def [symmetric] using assms(3,4)
    by (subst makeRequest_step [OF assms(1)]) (simp add: p)
qed

text \<open>The four ways an attempt can end.\<close>

lemma makeRequest_cases:
  assumes "pathname E (API_URL cfg) = Some url"
  obtains (settled) "snd (makeRequest E cfg snList retryCount w)
                    = snd (post E (request_at E cfg url snList (clock w)) w)"
  | (again) "retryCount < MAX_RETRIES cfg"
      "makeRequest E cfg snList retryCount w
           = makeRequest E cfg snList (retryCount + 1)
               (sleep E (RETRY_DELAY_MS cfg) (snd (post E (request_at E cfg url snList (clock w)) w)))"
proof (cases "outcome (respond E (length (calls w)) (request_at E cfg url snList (clock w)))")
  case (Inr b)
  from makeRequest_success [OF assms this] show ?thesis by (intro settled) simp
next
  case (Inl e)
  show ?thesis
  proof (cases "retryable e")
    case False
    from makeRequest_rejected [OF assms Inl this] show ?thesis by (intro settled) simp
  next
    case True
    show ?thesis
    proof (cases "retryCount < MAX_RETRIES cfg")
      case False
      from makeRequest_exhausted [OF assms Inl True this] show ?thesis by (intro settled) simp
    next
      case lt: True
      from makeRequest_retry [OF assms Inl True this] lt show ?thesis by (intro again)
    qed
  qed
qed

subsection \<open>The calls of one request\<close>

lemma makeRequest_trace:
  assumes url: "pathname E (API_URL cfg) = Some url"
  shows "\<exists>new. calls (snd (makeRequest E cfg snList rc w)) = calls w @ new
           \<and> new \<noteq> [] \<and> fst (hd new) = clock w
           \<and> (\<forall>c \<in> set new. snd c = request_at E cfg url snList (fst c))
           \<and> (\<forall>i. Suc i < length new \<longrightarrow>
                 fst (new ! i) + int (fires E (length (sleeps w) + i)
                                        (timeout_delay (RETRY_DELAY_MS cfg)))
                   \<le> fst (new ! Suc i))"
proof (induction "nat (MAX_RETRIES cfg - rc)" arbitrary: rc w rule: less_induct)
  case less
  let ?req = "request_at E cfg url snList (clock w)"
  let ?w1 = "snd (post E ?req w)"
  let ?d = "timeout_delay (RETRY_DELAY_MS cfg)"
  show ?case
  proof (rule makeRequest_cases [OF url, of snList rc w])
    assume "snd (makeRequest E cfg snList rc w) = ?w1"
    then have "calls (snd (makeRequest E cfg snList rc w)) = calls w @ [(clock w, ?req)]"
      by (simp add: post_calls)
    then show ?thesis by simp
  next
    let ?w2 = "sleep E (RETRY_DELAY_MS cfg) ?w1"
    let ?new = "\<lambda>new. (clock w, ?req) # new"
    assume again: "rc < MAX_RETRIES cfg"
      "makeRequest E cfg snList rc w = makeRequest E cfg snList (rc + 1) ?w2"
    from again(1) have "nat (MAX_RETRIES cfg - (rc + 1)) < nat (MAX_RETRIES cfg - rc)" by simp
    from less [OF this, of ?w2] obtain new
      where c: "calls (snd (makeRequest E cfg snList (rc + 1) ?w2)) = calls ?w2 @ new"
        and n: "new \<noteq> []" and h: "fst (hd new) = clock ?w2"
        and r: "\<forall>c \<in> set new. snd c = request_at E cfg url snList (fst c)"
        and s: "\<forall>i. Suc i < length new \<longrightarrow>
                 fst (new ! i) + int (fires E (length (sleeps ?w2) + i) ?d) \<le> fst (new ! Suc i)"
      by blast
    have len: "length (sleeps ?w2) = Suc (length (sleeps w))"
      by (simp add: sleep_sleeps post_sleeps)
    have cl: "clock w + int (fires E (length (sleeps w)) ?d) \<le> clock ?w2"
      using post_clock [of w E ?req] by (simp add: sleep_clock post_sleeps)
    have s': "\<forall>i. Suc i < length (?new new) \<longrightarrow>
                 fst (?new new ! i) + int (fires E (length (sleeps w) + i) ?d) \<le> fst (?new new ! Suc i)"
    proof (intro allI impI)
      fix i assume i: "Suc i < length (?new new)"
      show "fst (?new new ! i) + int (fires E (length (sleeps w) + i) ?d) \<le> fst (?new new ! Suc i)"
      proof (cases i)
        case 0
        from n have "new ! 0 = hd new" by (simp add: hd_conv_nth)
        with h cl have "clock w + int (fires E (length (sleeps w)) ?d) \<le> fst (new ! 0)"
          by (simp only:)
        then show ?thesis by (simp add: 0)
      next
        case (Suc j)
        with i have "Suc j < length new" by simp
        with s have "fst (new ! j) + int (fires E (length (sleeps ?w2) + j) ?d) \<le> fst (new ! Suc j)"
          by blast
        then have "fst (new ! j) + int (fires E (Suc (length (sleeps w)) + j) ?d) \<le> fst (new ! Suc j)"
          by (simp only: len)
        then show ?thesis by (simp add: Suc)
      qed
    qed
    have "calls (snd (makeRequest E cfg snList rc w)) = calls w @ ?new new"
      using again(2) c by (simp add: sleep_calls post_calls)
    moreover have "?new new \<noteq> []" by simp
    moreover have "fst (hd (?new new)) = clock w" by simp
    moreover have "\<forall>c \<in> set (?new new). snd c = request_at E cfg url snList (fst c)"
      using r by simp
    ultimately show ?thesis using s' by (intro exI [of _ "?new new"] conjI)
  qed
qed

lemma makeRequest_all_fail:
  assumes url: "pathname E (API_URL cfg) = Some url"
    and fail: "\<forall>n r. \<exists>e. outcome (respond E n r) = Inl e \<and> retryable e"
    and le: "rc \<le> MAX_RETRIES cfg"
  shows "\<exists>e. retryable e
           \<and> fst (makeRequest E cfg snList rc w) = Inl (retries_failed cfg e)
           \<and> outcome (respond E (length (calls w) + nat (MAX_RETRIES cfg - rc))
                 (snd (last (calls (snd (makeRequest E cfg snList rc w)))))) = Inl e
           \<and> length (calls (snd (makeRequest E cfg snList rc w)))
               = length (calls w) + nat (MAX_RETRIES cfg - rc) + 1
           \<and> sleeps (snd (makeRequest E cfg snList rc w))
               = sleeps w @ replicate (nat (MAX_RETRIES cfg - rc)) (RETRY_DELAY_MS cfg)"
  using le
proof (induction "nat (MAX_RETRIES cfg - rc)" arbitrary: rc w)
  case 0
  let ?req = "request_at E cfg url snList (clock w)"
  from fail obtain e where e: "outcome (respond E (length (calls w)) ?req) = Inl e" "retryable e"
    by blast
  from 0 have "\<not> rc < MAX_RETRIES cfg" by simp
  from makeRequest_exhausted [OF url e this] e 0(1) show ?case
    by (intro exI [of _ e]) (simp add: post_calls post_sleeps)
next
  case (Suc n)
  let ?req = "request_at E cfg url snList (clock w)"
  let ?w2 = "sleep E (RETRY_DELAY_MS cfg) (snd (post E ?req w))"
  from fail obtain e where e: "outcome (respond E (length (calls w)) ?req) = Inl e" "retryable e"
    by blast
  from Suc(2) have lt: "rc < MAX_RETRIES cfg" by simp
  have step: "makeRequest E cfg snList rc w = makeRequest E cfg snList (rc + 1) ?w2"
    by (rule makeRequest_retry [OF url e lt])
  from Suc(2) have n: "n = nat (MAX_RETRIES cfg - (rc + 1))" by simp
  from lt have "rc + 1 \<le> MAX_RETRIES cfg" by simp
  from Suc(1) [OF n this, of ?w2] obtain e'
    where "retryable e'"
      and "fst (makeRequest E cfg snList (rc + 1) ?w2) = Inl (retries_failed cfg e')"
      and "outcome (respond E (length (calls ?w2) + n)
             (snd (last (calls (snd (makeRequest E cfg snList (rc + 1) ?w2)))))) = Inl e'"
      and "length (calls (snd (makeRequest E cfg snList (rc + 1) ?w2))) = length (calls ?w2) + n + 1"
      and "sleeps (snd (makeRequest E cfg snList (rc + 1) ?w2))
             = sleeps ?w2 @ replicate n (RETRY_DELAY_MS cfg)"
    using n by auto
  then show ?case unfolding step Suc(2) [symmetric]
    by (intro exI [of _ e']) (simp add: sleep_calls sleep_sleeps post_calls post_sleeps replicate_app_Cons_same)
qed


subsection \<open>Fresh timestamps and signatures\<close>







lemma pathname_test_env: "pathname (test_env net) (API_URL CONFIG) = Some ''/device/real/query''"
  by (simp add: test_env_def)


subsection \<open>Claim C3\<close>



subsection \<open>Claim C4\<close>




subsection \<open>Claim C6\<close>




section \<open>The aggregator\<close>

subsection \<open>One batch, all batches\<close>

lemma length_generateSerialNumbers_loop:
  "length (generateSerialNumbers_loop count i acc) = length acc + nat (count - i)"
proof (induction count i acc rule: generateSerialNumbers_loop.induct)
  case (1 count i acc)
  show ?case
  proof (cases "i < count")
    case True
    with 1 show ?thesis by (subst generateSerialNumbers_loop.simps) simp
  next
    case False
    then show ?thesis by (subst generateSerialNumbers_loop.simps) simp
  qed
qed

lemma length_generateSerialNumbers: "length (generateSerialNumbers count) = nat count"
  by (simp add: generateSerialNumbers_def length_generateSerialNumbers_loop)

lemma fetch_batch_credit:
  assumes "fetch_batch E cfg batch (q, p, w) = (q', p', w')"
  shows "(successCount p' = successCount p + length batch \<and> failureCount p' = failureCount p
            \<and> (\<exists>readings. allResults p' = allResults p @ readings))
         \<or> (successCount p' = successCount p \<and> failureCount p' = failureCount p + length batch
            \<and> allResults p' = allResults p)"
  using assms by (auto simp: fetch_batch_def split: prod.splits sum.splits option.splits)

lemma fetch_loop_counts:
  assumes "fetch_loop E cfg batches (q, p, w) = (q', p', w')"
  shows "successCount p' + failureCount p' = successCount p + failureCount p + length (concat batches)"
  using assms
proof (induction batches arbitrary: q p w)
  case Nil
  then show ?case by simp
next
  case (Cons batch batches)
  obtain q1 p1 w1 where s: "fetch_batch E cfg batch (q, p, w) = (q1, p1, w1)"
    by (cases "fetch_batch E cfg batch (q, p, w)") auto
  with Cons.prems have "fetch_loop E cfg batches (q1, p1, w1) = (q', p', w')" by simp
  from Cons.IH [OF this] fetch_batch_credit [OF s] show ?case by auto
qed

lemma fetch_batch_calls:
  assumes url: "pathname E (API_URL cfg) = Some url"
    and s: "fetch_batch E cfg batch (q, p, w) = (q', p', w')"
  shows "\<exists>new. calls w' = calls w @ new \<and> new \<noteq> [] \<and> (\<forall>c \<in> set new. sn_list (snd c) = batch)"
proof -
  let ?w1 = "admit E q w"
  from s have w': "w' = snd (makeRequest E cfg batch 0 ?w1)"
    by (auto simp: fetch_batch_def execute_eq split: prod.splits sum.splits option.splits)
  from makeRequest_trace [OF url, of batch 0 ?w1]
  obtain new where "calls w' = calls ?w1 @ new" and "new \<noteq> []"
    and "\<forall>c \<in> set new. snd c = request_at E cfg url batch (fst c)"
    unfolding w' by blast
  then show ?thesis
    by (intro exI [of _ new]) (simp add: admit_calls request_at_def)
qed

lemma fetch_loop_calls:
  assumes url: "pathname E (API_URL cfg) = Some url"
    and "fetch_loop E cfg batches (q, p, w) = (q', p', w')"
  shows "\<exists>news. calls w' = calls w @ concat news
           \<and> list_all2 (\<lambda>batch new. new \<noteq> [] \<and> (\<forall>c \<in> set new. sn_list (snd c) = batch)) batches news"
  using assms(2)
proof (induction batches arbitrary: q p w)
  case Nil
  then show ?case by simp
next
  case (Cons batch batches)
  obtain q1 p1 w1 where s: "fetch_batch E cfg batch (q, p, w) = (q1, p1, w1)"
    by (cases "fetch_batch E cfg batch (q, p, w)") auto
  with Cons.prems have "fetch_loop E cfg batches (q1, p1, w1) = (q', p', w')" by simp
  from Cons.IH [OF this] obtain news where n: "calls w' = calls w1 @ concat news"
    "list_all2 (\<lambda>batch new. new \<noteq> [] \<and> (\<forall>c \<in> set new. sn_list (snd c) = batch)) batches news"
    by blast
  from fetch_batch_calls [OF url s] obtain new where m: "calls w1 = calls w @ new" "new \<noteq> []"
    "\<forall>c \<in> set new. sn_list (snd c) = batch" by blast
  from n m show ?case by (intro exI [of _ "new # news"]) simp
qed

lemma fetch_batch_success:
  assumes url: "pathname E (API_URL cfg) = Some url"
    and ok: "\<forall>n r. \<exists>readings. outcome (respond E n r) = Inr \<lparr> data = Some readings \<rparr>
                \<and> length readings = length (sn_list r)"
    and s: "fetch_batch E cfg batch (q, p, w) = (q', p', w')"
  shows "successCount p' = successCount p + length batch \<and> failureCount p' = failureCount p
         \<and> length (allResults p') = length (allResults p) + length batch"
proof -
  let ?w1 = "admit E q w"
  let ?req = "request_at E cfg url batch (clock ?w1)"
  from ok obtain readings
    where o: "outcome (respond E (length (calls ?w1)) ?req) = Inr \<lparr> data = Some readings \<rparr>"
      and l: "length readings = length (sn_list ?req)"
    by blast
  from l have l': "length readings = length batch" by (simp add: request_at_def)
  note m = makeRequest_success [OF url o, of 0]
  from s m l' show ?thesis
    by (auto simp: fetch_batch_def execute_eq split: prod.splits sum.splits option.splits)
qed

lemma fetch_loop_success:
  assumes url: "pathname E (API_URL cfg) = Some url"
    and ok: "\<forall>n r. \<exists>readings. outcome (respond E n r) = Inr \<lparr> data = Some readings \<rparr>
                \<and> length readings = length (sn_list r)"
    and "fetch_loop E cfg batches (q, p, w) = (q', p', w')"
  shows "successCount p' = successCount p + length (concat batches) \<and> failureCount p' = failureCount p
         \<and> length (allResults p') = length (allResults p) + length (concat batches)"
  using assms(3)
proof (induction batches arbitrary: q p w)
  case Nil
  then show ?case by simp
next
  case (Cons batch batches)
  obtain q1 p1 w1 where s: "fetch_batch E cfg batch (q, p, w) = (q1, p1, w1)"
    by (cases "fetch_batch E cfg batch (q, p, w)") auto
  with Cons.prems have "fetch_loop E cfg batches (q1, p1, w1) = (q', p', w')" by simp
  from Cons.IH [OF this] fetch_batch_success [OF url ok s] show ?case by simp
qed

subsection \<open>The counts and the outcomes of the requests\<close>

lemma fetch_batch_run:
  "fetch_batch E cfg batch (q, p, w) =
     (case execute E q (makeRequest E cfg batch 0) w of
        (result, q', w') \<Rightarrow>
          (q', p\<lparr> allResults := allResults p
                     @ (case delivered result of None \<Rightarrow> [] | Some readings \<Rightarrow> readings),
                  successCount := successCount p + (if delivered result = None then 0 else length batch),
                  failureCount := failureCount p + (if delivered result = None then length batch else 0) \<rparr>,
           w'))"
  by (simp add: fetch_batch_def delivered_def split: prod.splits sum.splits option.splits)

lemma fetch_loop_run:
  assumes "run_requests E cfg batches (q, w) = (outcomes, q', w')"
  shows "fetch_loop E cfg batches (q, p, w)
           = (q', p\<lparr> allResults := allResults p @ readings_of outcomes,
                     successCount := successCount p + resolved_count batches outcomes,
                     failureCount := failureCount p + failed_count batches outcomes \<rparr>, w')
         \<and> length outcomes = length batches"
  using assms
proof (induction batches arbitrary: q p w outcomes q' w')
  case Nil
  then show ?case by (auto simp: readings_of_def resolved_count_def failed_count_def)
next
  case (Cons batch batches)
  obtain result q1 w1 where ex: "execute E q (makeRequest E cfg batch 0) w = (result, q1, w1)"
    by (cases "execute E q (makeRequest E cfg batch 0) w") auto
  obtain rs q2 w2 where rr: "run_requests E cfg batches (q1, w1) = (rs, q2, w2)"
    by (cases "run_requests E cfg batches (q1, w1)") auto
  from Cons.prems ex rr have o: "outcomes = result # rs" "q' = q2" "w' = w2" by simp_all
  let ?p1 = "p\<lparr> allResults := allResults p
                     @ (case delivered result of None \<Rightarrow> [] | Some readings \<Rightarrow> readings),
                  successCount := successCount p + (if delivered result = None then 0 else length batch),
                  failureCount := failureCount p + (if delivered result = None then length batch else 0) \<rparr>"
  have fb: "fetch_batch E cfg batch (q, p, w) = (q1, ?p1, w1)"
    by (simp only: fetch_batch_run ex prod.case)
  from Cons.IH [OF rr, of ?p1]
  have "fetch_loop E cfg batches (q1, ?p1, w1)
           = (q2, ?p1\<lparr> allResults := allResults ?p1 @ readings_of rs,
                     successCount := successCount ?p1 + resolved_count batches rs,
                     failureCount := failureCount ?p1 + failed_count batches rs \<rparr>, w2)"
    and l: "length rs = length batches" by blast+
  then have "fetch_loop E cfg (batch # batches) (q, p, w)
           = (q2, ?p1\<lparr> allResults := allResults ?p1 @ readings_of rs,
                     successCount := successCount ?p1 + resolved_count batches rs,
                     failureCount := failureCount ?p1 + failed_count batches rs \<rparr>, w2)"
    by (simp only: fetch_loop.simps fb)
  then show ?case using l
    by (simp add: o readings_of_def resolved_count_def failed_count_def)
qed

lemma makeRequest_fails:
  assumes fail: "\<forall>n r. \<exists>e. outcome (respond E n r) = Inl e"
  shows "\<exists>e. fst (makeRequest E cfg snList rc w) = Inl e"
proof (cases "pathname E (API_URL cfg)")
  case None
  then show ?thesis by (subst makeRequest.simps) (simp add: Let_def)
next
  case (Some url)
  show ?thesis
  proof (induction "nat (MAX_RETRIES cfg - rc)" arbitrary: rc w rule: less_induct)
    case less
    let ?req = "request_at E cfg url snList (clock w)"
    from fail obtain e where e: "outcome (respond E (length (calls w)) ?req) = Inl e" by blast
    show ?case
    proof (cases "retryable e")
      case False
      from makeRequest_rejected [OF Some e False, of rc] show ?thesis by simp
    next
      case True
      show ?thesis
      proof (cases "rc < MAX_RETRIES cfg")
        case False
        from makeRequest_exhausted [OF Some e True False] show ?thesis by simp
      next
        case lt: True
        then have "nat (MAX_RETRIES cfg - (rc + 1)) < nat (MAX_RETRIES cfg - rc)" by simp
        from less [OF this] makeRequest_retry [OF Some e True lt] show ?thesis by simp
      qed
    qed
  qed
qed

lemma fetch_batch_fail:
  assumes fail: "\<forall>n r. \<exists>e. outcome (respond E n r) = Inl e"
    and s: "fetch_batch E cfg batch (q, p, w) = (q', p', w')"
  shows "successCount p' = successCount p \<and> failureCount p' = failureCount p + length batch
         \<and> allResults p' = allResults p"
proof -
  from makeRequest_fails [OF fail, of cfg batch 0 "admit E q w"]
  obtain e where "fst (makeRequest E cfg batch 0 (admit E q w)) = Inl e" by blast
  with s show ?thesis
    by (auto simp: fetch_batch_def execute_eq split: prod.splits sum.splits option.splits)
qed

lemma fetch_loop_fail:
  assumes fail: "\<forall>n r. \<exists>e. outcome (respond E n r) = Inl e"
    and "fetch_loop E cfg batches (q, p, w) = (q', p', w')"
  shows "successCount p' = successCount p \<and> failureCount p' = failureCount p + length (concat batches)
         \<and> allResults p' = allResults p"
  using assms(2)
proof (induction batches arbitrary: q p w)
  case Nil
  then show ?case by simp
next
  case (Cons batch batches)
  obtain q1 p1 w1 where s: "fetch_batch E cfg batch (q, p, w) = (q1, p1, w1)"
    by (cases "fetch_batch E cfg batch (q, p, w)") auto
  with Cons.prems have "fetch_loop E cfg batches (q1, p1, w1) = (q', p', w')" by simp
  from Cons.IH [OF this] fetch_batch_fail [OF fail s] show ?case by simp
qed

lemma batch_sizes_25:
  assumes "length xs = 25"
  shows "map length (spec_batches 10 xs) = [10, 10, 5]"
proof -
  have "[0..<3] = [0, 1, 2]" by (simp add: numeral_3_eq_3 upt_rec)
  then show ?thesis using assms by (simp add: spec_batches_def)
qed

subsection \<open>Two runs of twenty devices\<close>

text \<open>
  Two runs of the program on 20 devices, that is two batches of 10, followed step by
  step: in the first the network rejects its first call with the status 429 and accepts
  the rest; in the second it rejects its first call with the status 401.
\<close>

lemma sn_list_request_at: "sn_list (request_at E cfg url b t) = b"
  by (simp add: request_at_def)

lemma limited_once_first_batch:
  fixes b1 :: "string list"
  defines "E \<equiv> test_env (first_then (rejected 5 429))"
  defines "url \<equiv> ''/device/real/query''"
  shows "\<exists>body. makeRequest E CONFIG b1 0 \<lparr> clock = 100000, calls = [], sleeps = [] \<rparr>
         = (Inr body,
            \<lparr> clock = 102010,
              calls = [(100000, request_at E CONFIG url b1 100000),
                       (102005, request_at E CONFIG url b1 102005)],
              sleeps = [2000] \<rparr>)
         \<and> (\<exists>readings. data body = Some readings \<and> length readings = length b1)"
proof -
  let ?w0 = "\<lparr> clock = 100000, calls = [], sleeps = [] \<rparr>"
  let ?req0 = "request_at E CONFIG url b1 (clock ?w0)"
  let ?e = "\<lparr> response_status = Some 429, code = Some ''ERR_BAD_REQUEST'',
               message = ''Request failed with status code '' @ digits 429 \<rparr>"
  have url: "pathname E (API_URL CONFIG) = Some url"
    unfolding E_def url_def by (rule pathname_test_env)
  have o0: "outcome (respond E (length (calls ?w0)) ?req0) = Inl ?e"
    by (simp add: E_def test_env_def first_then_def rejected_def)
  have r: "retryable ?e" by (simp add: retryable_def)
  have lt: "(0::int) < MAX_RETRIES CONFIG" by (simp add: CONFIG_def)
  let ?w2 = "sleep E (RETRY_DELAY_MS CONFIG) (snd (post E ?req0 ?w0))"
  have w2: "?w2 = \<lparr> clock = 102005, calls = [(100000, request_at E CONFIG url b1 100000)],
                     sleeps = [2000] \<rparr>"
    by (simp add: sleep_def timeout_delay_def post_def Let_def E_def test_env_def first_then_def rejected_def CONFIG_def)
  have m1: "makeRequest E CONFIG b1 0 ?w0 = makeRequest E CONFIG b1 (0 + 1) ?w2"
    by (rule makeRequest_retry [OF url o0 r lt])
  let ?w2' = "\<lparr> clock = 102005, calls = [(100000, request_at E CONFIG url b1 100000)],
                     sleeps = [2000] \<rparr>"
  let ?req1 = "request_at E CONFIG url b1 (clock ?w2')"
  let ?body = "\<lparr> data = Some (map (\<lambda>s. \<lparr> sn = s, power = ''1.00 kW'', status = ''Online'',
                                                last_updated = ''2026-02-04T10:30:00.000Z'' \<rparr>) b1) \<rparr>"
  have o1: "outcome (respond E (length (calls ?w2')) ?req1) = Inr ?body"
    by (simp add: E_def test_env_def first_then_def accepted_def sn_list_request_at)
  have m2: "makeRequest E CONFIG b1 (0 + 1) ?w2' = (Inr ?body, snd (post E ?req1 ?w2'))"
    by (rule makeRequest_success [OF url o1])
  have w3: "snd (post E ?req1 ?w2') = \<lparr> clock = 102010,
              calls = [(100000, request_at E CONFIG url b1 100000),
                       (102005, request_at E CONFIG url b1 102005)],
              sleeps = [2000] \<rparr>"
    by (simp add: post_def Let_def E_def test_env_def first_then_def accepted_def)
  from m1 w2 m2 w3 have "makeRequest E CONFIG b1 0 ?w0 = (Inr ?body, \<lparr> clock = 102010,
              calls = [(100000, request_at E CONFIG url b1 100000),
                       (102005, request_at E CONFIG url b1 102005)],
              sleeps = [2000] \<rparr>)"
    by (simp only:)
  then show ?thesis by (intro exI [of _ ?body]) simp
qed

lemma first_then_later:
  fixes b :: "string list" and r0 :: reply
  defines "E \<equiv> test_env (first_then r0)"
  defines "url \<equiv> ''/device/real/query''"
  assumes "calls w \<noteq> []"
  shows "\<exists>body. makeRequest E CONFIG b 0 w
           = (Inr body, w\<lparr> clock := clock w + 5,
                           calls := calls w @ [(clock w, request_at E CONFIG url b (clock w))] \<rparr>)
         \<and> (\<exists>readings. data body = Some readings \<and> length readings = length b)"
proof -
  let ?req = "request_at E CONFIG url b (clock w)"
  let ?body = "\<lparr> data = Some (map (\<lambda>s. \<lparr> sn = s, power = ''1.00 kW'', status = ''Online'',
                                                last_updated = ''2026-02-04T10:30:00.000Z'' \<rparr>) b) \<rparr>"
  have url: "pathname E (API_URL CONFIG) = Some url"
    unfolding E_def url_def by (rule pathname_test_env)
  have o: "outcome (respond E (length (calls w)) ?req) = Inr ?body"
    using assms(3) by (simp add: E_def test_env_def first_then_def accepted_def sn_list_request_at)
  have m: "makeRequest E CONFIG b 0 w = (Inr ?body, snd (post E ?req w))"
    by (rule makeRequest_success [OF url o])
  have "snd (post E ?req w) = w\<lparr> clock := clock w + 5, calls := calls w @ [(clock w, ?req)] \<rparr>"
    using assms(3) by (simp add: post_def Let_def E_def test_env_def first_then_def accepted_def)
  with m show ?thesis by (intro exI [of _ ?body]) simp
qed

lemma limited_once_two_batches:
  fixes b1 b2 :: "string list"
  defines "E \<equiv> test_env (first_then (rejected 5 429))"
  assumes "fetch_loop E CONFIG [b1, b2]
             (new_queue (RATE_LIMIT_MS CONFIG),
              \<lparr> allResults = [], successCount = 0, failureCount = 0 \<rparr>, world_at 100000) = (q', p', w')"
  shows "map fst (calls w') = [100000, 102005, 102010]
       \<and> map (sn_list \<circ> snd) (calls w') = [b1, b1, b2]
       \<and> q' = \<lparr> rateLimitMs = 1000, lastRequestTime = 102010 \<rparr>
       \<and> successCount p' = length b1 + length b2 \<and> failureCount p' = 0"
proof -
  let ?url = "''/device/real/query''"
  let ?p0 = "\<lparr> allResults = [], successCount = 0, failureCount = 0 \<rparr>"
  let ?w0 = "\<lparr> clock = 100000, calls = [], sleeps = [] \<rparr>"
  let ?q0 = "\<lparr> rateLimitMs = 1000, lastRequestTime = 0 \<rparr>"
  let ?w3 = "\<lparr> clock = 102010,
              calls = [(100000, request_at E CONFIG ?url b1 100000),
                       (102005, request_at E CONFIG ?url b1 102005)],
              sleeps = [2000] \<rparr>"
  let ?q1 = "\<lparr> rateLimitMs = 1000, lastRequestTime = 100000 \<rparr>"
  from limited_once_first_batch [of b1] obtain body1 readings1
    where m1: "makeRequest E CONFIG b1 0 ?w0 = (Inr body1, ?w3)"
      and d1: "data body1 = Some readings1" "length readings1 = length b1"
    unfolding E_def by blast
  have a0: "admit E ?q0 ?w0 = ?w0" by (simp add: admit_def Let_def)
  let ?p1 = "\<lparr> allResults = readings1, successCount = length b1, failureCount = 0 \<rparr>"
  have s1: "fetch_batch E CONFIG b1 (?q0, ?p0, ?w0) = (?q1, ?p1, ?w3)"
    by (simp add: fetch_batch_def execute_eq a0 m1 d1)
  have a1: "admit E ?q1 ?w3 = ?w3" by (simp add: admit_def Let_def)
  have "calls ?w3 \<noteq> []" by simp
  from first_then_later [OF this, of "rejected 5 429" b2] obtain body2 readings2
    where m2: "makeRequest E CONFIG b2 0 ?w3
                 = (Inr body2, ?w3\<lparr> clock := clock ?w3 + 5,
                       calls := calls ?w3 @ [(clock ?w3, request_at E CONFIG ?url b2 (clock ?w3))] \<rparr>)"
      and d2: "data body2 = Some readings2" "length readings2 = length b2"
    unfolding E_def by blast
  let ?w4 = "\<lparr> clock = 102015,
              calls = [(100000, request_at E CONFIG ?url b1 100000),
                       (102005, request_at E CONFIG ?url b1 102005),
                       (102010, request_at E CONFIG ?url b2 102010)],
              sleeps = [2000] \<rparr>"
  let ?q2 = "\<lparr> rateLimitMs = 1000, lastRequestTime = 102010 \<rparr>"
  let ?p2 = "\<lparr> allResults = readings1 @ readings2, successCount = length b1 + length b2,
               failureCount = 0 \<rparr>"
  from m2 have m2': "makeRequest E CONFIG b2 0 ?w3 = (Inr body2, ?w4)" by simp
  have s2: "fetch_batch E CONFIG b2 (?q1, ?p1, ?w3) = (?q2, ?p2, ?w4)"
    by (simp add: fetch_batch_def execute_eq a1 m2' d2)
  have "fetch_loop E CONFIG [b1, b2] (?q0, ?p0, ?w0) = (?q2, ?p2, ?w4)"
    by (simp add: s1 s2)
  with assms(2) have "q' = ?q2" "p' = ?p2" "w' = ?w4"
    by (simp_all add: new_queue_def world_at_def CONFIG_def)
  then show ?thesis by (simp add: sn_list_request_at)
qed

lemma batches_20:
  assumes "length xs = 20"
  shows "spec_batches 10 xs = [take 10 xs, take 10 (drop 10 xs)]"
proof -
  have "[0..<2] = [0, 1]" by (simp add: numeral_2_eq_2 upt_rec)
  then show ?thesis using assms by (simp add: spec_batches_def)
qed

lemma rejected_once_two_batches:
  fixes b1 b2 :: "string list"
  defines "E \<equiv> test_env (first_then (rejected 5 401))"
  assumes "fetch_loop E CONFIG [b1, b2]
             (new_queue (RATE_LIMIT_MS CONFIG),
              \<lparr> allResults = [], successCount = 0, failureCount = 0 \<rparr>, world_at 100000) = (q', p', w')"
  shows "map (sn_list \<circ> snd) (calls w') = [b1, b2]
       \<and> successCount p' = length b2 \<and> failureCount p' = length b1
       \<and> length (allResults p') = length b2"
proof -
  let ?url = "''/device/real/query''"
  let ?p0 = "\<lparr> allResults = [], successCount = 0, failureCount = 0 \<rparr>"
  let ?w0 = "\<lparr> clock = 100000, calls = [], sleeps = [] \<rparr>"
  let ?q0 = "\<lparr> rateLimitMs = 1000, lastRequestTime = 0 \<rparr>"
  let ?req0 = "request_at E CONFIG ?url b1 (clock ?w0)"
  let ?e = "\<lparr> response_status = Some 401, code = Some ''ERR_BAD_REQUEST'',
               message = ''Request failed with status code '' @ digits 401 \<rparr>"
  let ?w1 = "\<lparr> clock = 100005, calls = [(100000, request_at E CONFIG ?url b1 100000)], sleeps = [] \<rparr>"
  let ?q1 = "\<lparr> rateLimitMs = 1000, lastRequestTime = 100000 \<rparr>"
  have url: "pathname E (API_URL CONFIG) = Some ?url"
    unfolding E_def by (rule pathname_test_env)
  have o0: "outcome (respond E (length (calls ?w0)) ?req0) = Inl ?e"
    by (simp add: E_def test_env_def first_then_def rejected_def)
  have n: "\<not> retryable ?e" by (simp add: retryable_def)
  have "snd (post E ?req0 ?w0) = ?w1"
    by (simp add: post_def Let_def E_def test_env_def first_then_def rejected_def)
  with makeRequest_rejected [OF url o0 n, of 0]
  have m1: "makeRequest E CONFIG b1 0 ?w0 = (Inl ?e, ?w1)" by simp
  have a0: "admit E ?q0 ?w0 = ?w0" by (simp add: admit_def Let_def)
  let ?p1 = "\<lparr> allResults = [], successCount = 0, failureCount = length b1 \<rparr>"
  have s1: "fetch_batch E CONFIG b1 (?q0, ?p0, ?w0) = (?q1, ?p1, ?w1)"
    by (simp add: fetch_batch_def execute_eq a0 m1)
  let ?w2' = "\<lparr> clock = 101000, calls = [(100000, request_at E CONFIG ?url b1 100000)],
                     sleeps = [995] \<rparr>"
  have a1: "admit E ?q1 ?w1 = ?w2'"
    by (simp add: admit_def Let_def sleep_def timeout_delay_def E_def test_env_def)
  have "calls ?w2' \<noteq> []" by simp
  from first_then_later [OF this, of "rejected 5 401" b2] obtain body2 readings2
    where m2: "makeRequest E CONFIG b2 0 ?w2'
                 = (Inr body2, ?w2'\<lparr> clock := clock ?w2' + 5,
                       calls := calls ?w2' @ [(clock ?w2', request_at E CONFIG ?url b2 (clock ?w2'))] \<rparr>)"
      and d2: "data body2 = Some readings2" "length readings2 = length b2"
    unfolding E_def by blast
  let ?w3 = "\<lparr> clock = 101005,
              calls = [(100000, request_at E CONFIG ?url b1 100000),
                       (101000, request_at E CONFIG ?url b2 101000)],
              sleeps = [995] \<rparr>"
  let ?q2 = "\<lparr> rateLimitMs = 1000, lastRequestTime = 101000 \<rparr>"
  let ?p2 = "\<lparr> allResults = readings2, successCount = length b2, failureCount = length b1 \<rparr>"
  from m2 have m2': "makeRequest E CONFIG b2 0 ?w2' = (Inr body2, ?w3)" by simp
  have s2: "fetch_batch E CONFIG b2 (?q1, ?p1, ?w1) = (?q2, ?p2, ?w3)"
    by (simp add: fetch_batch_def execute_eq a1 m2' d2)
  have "fetch_loop E CONFIG [b1, b2] (?q0, ?p0, ?w0) = (?q2, ?p2, ?w3)"
    by (simp add: s1 s2)
  with assms(2) have "q' = ?q2" "p' = ?p2" "w' = ?w3"
    by (simp_all add: new_queue_def world_at_def CONFIG_def)
  then show ?thesis by (simp add: sn_list_request_at d2)
qed

lemma rejected_once_run:
  "\<exists>r w'. fetchAllDeviceData_of (test_env (first_then (rejected 5 401))) CONFIG 20 (world_at 100000)
             = Some (r, w')
     \<and> length (calls w') = 2
     \<and> successCount r = 10 \<and> failureCount r = 10 \<and> length (allResults r) = 10"
proof -
  let ?E = "test_env (first_then (rejected 5 401))"
  let ?xs = "generateSerialNumbers 20"
  let ?p0 = "\<lparr> allResults = [], successCount = 0, failureCount = 0 \<rparr>"
  have "createBatches ?xs (int 10) = Some (spec_batches 10 ?xs)"
    by (rule createBatches_spec) simp
  then have cb: "createBatches ?xs (BATCH_SIZE CONFIG) = Some [take 10 ?xs, take 10 (drop 10 ?xs)]"
    by (simp add: batches_20 length_generateSerialNumbers CONFIG_def)
  obtain q' p' w' where fl: "fetch_loop ?E CONFIG [take 10 ?xs, take 10 (drop 10 ?xs)]
             (new_queue (RATE_LIMIT_MS CONFIG), ?p0, world_at 100000) = (q', p', w')"
    by (cases "fetch_loop ?E CONFIG [take 10 ?xs, take 10 (drop 10 ?xs)]
             (new_queue (RATE_LIMIT_MS CONFIG), ?p0, world_at 100000)") auto
  note t = rejected_once_two_batches [OF fl]
  define r where "r = \<lparr> allResults = allResults p', successCount = successCount p',
      failureCount = failureCount p', totalDevices = length ?xs,
      online = length (filter (\<lambda>d. status d = ''Online'') (allResults p')),
      offline = length (filter (\<lambda>d. status d = ''Offline'') (allResults p')) \<rparr>"
  have run: "fetchAllDeviceData_of ?E CONFIG 20 (world_at 100000) = Some (r, w')"
    by (simp add: fetchAllDeviceData_of_def Let_def cb fl r_def del: fetch_loop.simps)
  from t have c: "successCount r = 10 \<and> failureCount r = 10 \<and> length (allResults r) = 10"
    by (simp add: r_def length_generateSerialNumbers)
  from t have "length (map (sn_list \<circ> snd) (calls w')) = 2" by simp
  then have l: "length (calls w') = 2" by (simp only: length_map)
  from run c l show ?thesis by (intro exI [of _ r] exI [of _ w']) simp
qed

subsection \<open>A run in which every call is rejected with the status 429\<close>

lemma batches_10:
  assumes "length xs = 10"
  shows "spec_batches 10 xs = [xs]"
  using assms by (simp add: spec_batches_def)

lemma limited_always_run:
  "\<exists>r w'. fetchAllDeviceData_of (test_env (\<lambda>n r. rejected 5 429)) CONFIG 10 (world_at 100000)
             = Some (r, w')
     \<and> length (calls w') = 4 \<and> sleeps w' = [2000, 2000, 2000]"
proof -
  let ?E = "test_env (\<lambda>n r. rejected 5 429)"
  let ?xs = "generateSerialNumbers 10"
  let ?p0 = "\<lparr> allResults = [], successCount = 0, failureCount = 0 \<rparr>"
  let ?q0 = "new_queue (RATE_LIMIT_MS CONFIG)"
  let ?w0 = "world_at 100000"
  have "createBatches ?xs (int 10) = Some (spec_batches 10 ?xs)"
    by (rule createBatches_spec) simp
  then have cb: "createBatches ?xs (BATCH_SIZE CONFIG) = Some [?xs]"
    by (simp add: batches_10 length_generateSerialNumbers CONFIG_def)
  obtain q' p' w' where fl: "fetch_loop ?E CONFIG [?xs] (?q0, ?p0, ?w0) = (q', p', w')"
    by (cases "fetch_loop ?E CONFIG [?xs] (?q0, ?p0, ?w0)") auto
  have a: "admit ?E ?q0 ?w0 = ?w0"
    by (simp add: admit_def new_queue_def world_at_def CONFIG_def Let_def)
  from fl have "w' = snd (makeRequest ?E CONFIG ?xs 0 (admit ?E ?q0 ?w0))"
    by (auto simp: fetch_batch_def execute_eq split: prod.splits sum.splits option.splits)
  then have w': "w' = snd (makeRequest ?E CONFIG ?xs 0 ?w0)" by (simp only: a)
  have h3: "\<forall>n r. \<exists>e. outcome (respond ?E n r) = Inl e \<and> retryable e"
    by (simp add: test_env_def rejected_def retryable_def)
  have le: "0 \<le> MAX_RETRIES CONFIG" by (simp add: CONFIG_def)
  from makeRequest_all_fail [OF pathname_test_env h3 le, of ?xs ?w0]
  have "length (calls w') = length (calls ?w0) + nat (MAX_RETRIES CONFIG - 0) + 1"
    and "sleeps w' = sleeps ?w0 @ replicate (nat (MAX_RETRIES CONFIG - 0)) (RETRY_DELAY_MS CONFIG)"
    unfolding w' by blast+
  then have c: "length (calls w') = 4" and s: "sleeps w' = [2000, 2000, 2000]"
    by (simp_all add: world_at_def CONFIG_def numeral_3_eq_3)
  define r where "r = \<lparr> allResults = allResults p', successCount = successCount p',
      failureCount = failureCount p', totalDevices = length ?xs,
      online = length (filter (\<lambda>d. status d = ''Online'') (allResults p')),
      offline = length (filter (\<lambda>d. status d = ''Offline'') (allResults p')) \<rparr>"
  have run: "fetchAllDeviceData_of ?E CONFIG 10 ?w0 = Some (r, w')"
    by (simp add: fetchAllDeviceData_of_def Let_def cb fl r_def del: fetch_loop.simps)
  from run c s show ?thesis by (intro exI [of _ r] exI [of _ w']) simp
qed

subsection \<open>Claim C8\<close>

text \<open>
  C8: \<open>fetchAllDeviceData\<close> processes every batch, in order, and a failed batch does not
  end the run: there is one outcome of a request for each batch, and each batch is the
  subject of at least one network call, the calls of one batch before those of the
  next. The counts follow the outcomes: \<open>successCount\<close> is the number of identifiers
  of the batches whose request delivered readings, \<open>failureCount\<close> the number of
  identifiers of all the other batches, whatever the error of their request, rejected
  at once or failed after the retries, and the result holds the readings delivered. So
  each batch is counted once, and the two counts add up to the size of the population.
  When every call succeeds with one reading for each identifier asked, a population of
  \<open>n\<close> gives \<open>n\<close> resolved, 0 failed and \<open>n\<close> readings; when every call fails, with
  whatever error, it gives 0 resolved, \<open>n\<close> failed and no reading. The batch size is
  positive, as in \<open>CONFIG\<close>.
\<close>

theorem fetchAllDeviceData_accounts:
  assumes "0 < BATCH_SIZE cfg"
  shows "\<exists>batches outcomes q' r w'.
           createBatches (generateSerialNumbers count) (BATCH_SIZE cfg) = Some batches
         \<and> concat batches = generateSerialNumbers count
         \<and> run_requests E cfg batches (new_queue (RATE_LIMIT_MS cfg), w) = (outcomes, q', w')
         \<and> length outcomes = length batches
         \<and> fetchAllDeviceData_of E cfg count w = Some (r, w')
         \<and> totalDevices r = nat count
         \<and> successCount r = resolved_count batches outcomes
         \<and> failureCount r = failed_count batches outcomes
         \<and> allResults r = readings_of outcomes
         \<and> successCount r + failureCount r = totalDevices r
         \<and> (\<forall>url. pathname E (API_URL cfg) = Some url \<longrightarrow>
               (\<exists>news. calls w' = calls w @ concat news
                  \<and> list_all2 (\<lambda>batch new. new \<noteq> [] \<and> (\<forall>c \<in> set new. sn_list (snd c) = batch))
                       batches news))
         \<and> ((\<exists>url. pathname E (API_URL cfg) = Some url)
              \<and> (\<forall>n r. \<exists>readings. outcome (respond E n r) = Inr \<lparr> data = Some readings \<rparr>
                      \<and> length readings = length (sn_list r)) \<longrightarrow>
               successCount r = nat count \<and> failureCount r = 0 \<and> length (allResults r) = nat count)
         \<and> ((\<forall>n r. \<exists>e. outcome (respond E n r) = Inl e) \<longrightarrow>
               successCount r = 0 \<and> failureCount r = nat count \<and> allResults r = [])"
proof -
  let ?xs = "generateSerialNumbers count"
  define b where "b = nat (BATCH_SIZE cfg)"
  have b: "0 < b" and bs: "BATCH_SIZE cfg = int b" using assms by (simp_all add: b_def)
  let ?batches = "spec_batches b ?xs"
  let ?p0 = "\<lparr> allResults = [], successCount = 0, failureCount = 0 \<rparr>"
  let ?q0 = "new_queue (RATE_LIMIT_MS cfg)"
  have cb: "createBatches ?xs (BATCH_SIZE cfg) = Some ?batches"
    unfolding bs by (rule createBatches_spec [OF b])
  have cc: "concat ?batches = ?xs" by (rule concat_spec_batches [OF b])
  obtain outcomes q' w' where rr: "run_requests E cfg ?batches (?q0, w) = (outcomes, q', w')"
    by (cases "run_requests E cfg ?batches (?q0, w)") auto
  define p' where "p' = ?p0\<lparr> allResults := allResults ?p0 @ readings_of outcomes,
                     successCount := successCount ?p0 + resolved_count ?batches outcomes,
                     failureCount := failureCount ?p0 + failed_count ?batches outcomes \<rparr>"
  from fetch_loop_run [OF rr, of ?p0]
  have fl: "fetch_loop E cfg ?batches (?q0, ?p0, w) = (q', p', w')"
    and lo: "length outcomes = length ?batches"
    unfolding p'_def by blast+
  define r where "r = \<lparr> allResults = allResults p', successCount = successCount p',
      failureCount = failureCount p', totalDevices = length ?xs,
      online = length (filter (\<lambda>d. status d = ''Online'') (allResults p')),
      offline = length (filter (\<lambda>d. status d = ''Offline'') (allResults p')) \<rparr>"
  have run: "fetchAllDeviceData_of E cfg count w = Some (r, w')"
    by (simp add: fetchAllDeviceData_of_def Let_def cb fl r_def)
  have td: "totalDevices r = nat count" by (simp add: r_def length_generateSerialNumbers)
  have sc: "successCount r = resolved_count ?batches outcomes" by (simp add: r_def p'_def)
  have fc: "failureCount r = failed_count ?batches outcomes" by (simp add: r_def p'_def)
  have ar: "allResults r = readings_of outcomes" by (simp add: r_def p'_def)
  have sum: "successCount r + failureCount r = totalDevices r"
    using fetch_loop_counts [OF fl] by (simp add: r_def cc)
  have tr: "\<forall>url. pathname E (API_URL cfg) = Some url \<longrightarrow>
               (\<exists>news. calls w' = calls w @ concat news
                  \<and> list_all2 (\<lambda>batch new. new \<noteq> [] \<and> (\<forall>c \<in> set new. sn_list (snd c) = batch))
                       ?batches news)"
    using fetch_loop_calls [OF _ fl] by blast
  have ok: "(\<exists>url. pathname E (API_URL cfg) = Some url)
              \<and> (\<forall>n r. \<exists>readings. outcome (respond E n r) = Inr \<lparr> data = Some readings \<rparr>
                      \<and> length readings = length (sn_list r)) \<longrightarrow>
               successCount r = nat count \<and> failureCount r = 0 \<and> length (allResults r) = nat count"
  proof
    assume a: "(\<exists>url. pathname E (API_URL cfg) = Some url)
              \<and> (\<forall>n r. \<exists>readings. outcome (respond E n r) = Inr \<lparr> data = Some readings \<rparr>
                      \<and> length readings = length (sn_list r))"
    then obtain url where url: "pathname E (API_URL cfg) = Some url" by blast
    from a have all: "\<forall>n r. \<exists>readings. outcome (respond E n r) = Inr \<lparr> data = Some readings \<rparr>
                      \<and> length readings = length (sn_list r)" by blast
    from fetch_loop_success [OF url all fl]
    show "successCount r = nat count \<and> failureCount r = 0 \<and> length (allResults r) = nat count"
      by (simp add: r_def cc length_generateSerialNumbers)
  qed
  have ko: "(\<forall>n r. \<exists>e. outcome (respond E n r) = Inl e) \<longrightarrow>
               successCount r = 0 \<and> failureCount r = nat count \<and> allResults r = []"
  proof
    assume "\<forall>n r. \<exists>e. outcome (respond E n r) = Inl e"
    from fetch_loop_fail [OF this fl]
    show "successCount r = 0 \<and> failureCount r = nat count \<and> allResults r = []"
      by (simp add: r_def cc length_generateSerialNumbers)
  qed
  show ?thesis
  proof (intro exI conjI)
    show "createBatches ?xs (BATCH_SIZE cfg) = Some ?batches" by (rule cb)
    show "concat ?batches = ?xs" by (rule cc)
    show "run_requests E cfg ?batches (?q0, w) = (outcomes, q', w')" by (rule rr)
    show "length outcomes = length ?batches" by (rule lo)
    show "fetchAllDeviceData_of E cfg count w = Some (r, w')" by (rule run)
    show "totalDevices r = nat count" by (rule td)
    show "successCount r = resolved_count ?batches outcomes" by (rule sc)
    show "failureCount r = failed_count ?batches outcomes" by (rule fc)
    show "allResults r = readings_of outcomes" by (rule ar)
    show "successCount r + failureCount r = totalDevices r" by (rule sum)
    show "\<forall>url. pathname E (API_URL cfg) = Some url \<longrightarrow>
               (\<exists>news. calls w' = calls w @ concat news
                  \<and> list_all2 (\<lambda>batch new. new \<noteq> [] \<and> (\<forall>c \<in> set new. sn_list (snd c) = batch))
                       ?batches news)" by (rule tr)
    show "(\<exists>url. pathname E (API_URL cfg) = Some url)
              \<and> (\<forall>n r. \<exists>readings. outcome (respond E n r) = Inr \<lparr> data = Some readings \<rparr>
                      \<and> length readings = length (sn_list r)) \<longrightarrow>
               successCount r = nat count \<and> failureCount r = 0 \<and> length (allResults r) = nat count"
      by (rule ok)
    show "(\<forall>n r. \<exists>e. outcome (respond E n r) = Inl e) \<longrightarrow>
               successCount r = 0 \<and> failureCount r = nat count \<and> allResults r = []" by (rule ko)
  qed
qed

theorem fetchAllDeviceData_accounts_witness:
  "(\<exists>batches r w'.
      createBatches (generateSerialNumbers 25) (BATCH_SIZE CONFIG) = Some batches
    \<and> map length batches = [10, 10, 5]
    \<and> fetchAllDeviceData_of (test_env accepted) CONFIG 25 (world_at 100000) = Some (r, w')
    \<and> totalDevices r = 25 \<and> successCount r = 25 \<and> failureCount r = 0
    \<and> length (allResults r) = 25)
   \<and> (\<exists>r w'. fetchAllDeviceData_of (test_env (\<lambda>n r. rejected 5 429)) CONFIG 10 (world_at 100000)
             = Some (r, w')
     \<and> length (calls w') = 4 \<and> sleeps w' = [2000, 2000, 2000]
     \<and> successCount r = 0 \<and> failureCount r = 10 \<and> allResults r = [])
   \<and> (\<exists>r w'. fetchAllDeviceData_of (test_env (\<lambda>n r. rejected 5 401)) CONFIG 20 (world_at 100000)
             = Some (r, w')
     \<and> successCount r = 0 \<and> failureCount r = 20 \<and> allResults r = [])
   \<and> (\<exists>r w'. fetchAllDeviceData_of (test_env (first_then (rejected 5 401))) CONFIG 20 (world_at 100000)
             = Some (r, w')
     \<and> length (calls w') = 2
     \<and> successCount r = 10 \<and> failureCount r = 10 \<and> length (allResults r) = 10)"
proof -
  let ?E = "test_env accepted"
  let ?w = "world_at 100000"
  have h: "0 < BATCH_SIZE CONFIG" by (simp add: CONFIG_def)
  have ok: "(\<exists>url. pathname ?E (API_URL CONFIG) = Some url)
       \<and> (\<forall>n r. \<exists>readings. outcome (respond ?E n r) = Inr \<lparr> data = Some readings \<rparr>
                      \<and> length readings = length (sn_list r))"
    using pathname_test_env [of accepted] by (simp add: test_env_def accepted_def)
  from fetchAllDeviceData_accounts [OF h, of 25 ?E ?w] ok
  obtain batches r w'
    where c: "createBatches (generateSerialNumbers 25) (BATCH_SIZE CONFIG) = Some batches"
      and f: "fetchAllDeviceData_of ?E CONFIG 25 ?w = Some (r, w')"
      and t: "totalDevices r = nat 25"
      and s: "successCount r = nat 25 \<and> failureCount r = 0 \<and> length (allResults r) = nat 25"
    by blast
  have "createBatches (generateSerialNumbers 25) (int 10) = Some (spec_batches 10 (generateSerialNumbers 25))"
    by (rule createBatches_spec) simp
  with c have "batches = spec_batches 10 (generateSerialNumbers 25)" by (simp add: CONFIG_def)
  then have m: "map length batches = [10, 10, 5]"
    by (simp add: batch_sizes_25 length_generateSerialNumbers)
  from c m f t s have 1: "\<exists>batches r w'.
      createBatches (generateSerialNumbers 25) (BATCH_SIZE CONFIG) = Some batches
    \<and> map length batches = [10, 10, 5]
    \<and> fetchAllDeviceData_of (test_env accepted) CONFIG 25 (world_at 100000) = Some (r, w')
    \<and> totalDevices r = 25 \<and> successCount r = 25 \<and> failureCount r = 0
    \<and> length (allResults r) = 25"
    by (intro exI [of _ batches] exI [of _ r] exI [of _ w']) simp
  let ?L = "test_env (\<lambda>n r. rejected 5 429)"
  have kl: "\<forall>n r. \<exists>e. outcome (respond ?L n r) = Inl e"
    by (simp add: test_env_def rejected_def)
  from fetchAllDeviceData_accounts [OF h, of 10 ?L ?w] kl
  obtain r2 w2
    where f2: "fetchAllDeviceData_of ?L CONFIG 10 ?w = Some (r2, w2)"
      and s2: "successCount r2 = 0 \<and> failureCount r2 = nat 10 \<and> allResults r2 = []"
    by blast
  from limited_always_run f2 have "length (calls w2) = 4 \<and> sleeps w2 = [2000, 2000, 2000]"
    by auto
  with f2 s2 have 2: "\<exists>r w'. fetchAllDeviceData_of ?L CONFIG 10 ?w = Some (r, w')
     \<and> length (calls w') = 4 \<and> sleeps w' = [2000, 2000, 2000]
     \<and> successCount r = 0 \<and> failureCount r = 10 \<and> allResults r = []"
    by (intro exI [of _ r2] exI [of _ w2]) simp
  let ?R = "test_env (\<lambda>n r. rejected 5 401)"
  have kr: "\<forall>n r. \<exists>e. outcome (respond ?R n r) = Inl e"
    by (simp add: test_env_def rejected_def)
  from fetchAllDeviceData_accounts [OF h, of 20 ?R ?w] kr
  obtain r3 w3
    where f3: "fetchAllDeviceData_of ?R CONFIG 20 ?w = Some (r3, w3)"
      and s3: "successCount r3 = 0 \<and> failureCount r3 = nat 20 \<and> allResults r3 = []"
    by blast
  then have 3: "\<exists>r w'. fetchAllDeviceData_of ?R CONFIG 20 ?w = Some (r, w')
     \<and> successCount r = 0 \<and> failureCount r = 20 \<and> allResults r = []"
    by (intro exI [of _ r3] exI [of _ w3]) simp
  from 1 2 3 rejected_once_run show ?thesis by (intro conjI)
qed

subsection \<open>Claim C5\<close>

text \<open>
  C5 says that every network call, also a retry, goes through the rate-limited queue, so
  that two consecutive calls are never issued less than the interval apart. In the
  source only the first attempt of a batch goes through \<open>execute\<close>: a retry is issued
  by \<open>makeRequest\<close> itself after its own delay, and the queue records nothing for it.
  The run below is the program on 20 devices against a network that rejects the first
  call with the status 429 and takes 5 ms for each call: the retry of the first batch is
  issued at 102005 and the request of the second batch at 102010, 5 ms later, with an
  interval of 1000 ms configured.
\<close>

theorem retry_bypasses_queue:
  "\<exists>r w'. fetchAllDeviceData_of (test_env (first_then (rejected 5 429))) CONFIG 20 (world_at 100000) = Some (r, w')
     \<and> map fst (calls w') = [100000, 102005, 102010]
     \<and> map (sn_list \<circ> snd) (calls w')
         = [take 10 (generateSerialNumbers 20), take 10 (generateSerialNumbers 20),
            take 10 (drop 10 (generateSerialNumbers 20))]
     \<and> successCount r = 20 \<and> failureCount r = 0
     \<and> 102010 - 102005 < RATE_LIMIT_MS CONFIG"
proof -
  let ?E = "test_env (first_then (rejected 5 429))"
  let ?xs = "generateSerialNumbers 20"
  let ?p0 = "\<lparr> allResults = [], successCount = 0, failureCount = 0 \<rparr>"
  have "createBatches ?xs (int 10) = Some (spec_batches 10 ?xs)"
    by (rule createBatches_spec) simp
  then have cb: "createBatches ?xs (BATCH_SIZE CONFIG) = Some [take 10 ?xs, take 10 (drop 10 ?xs)]"
    by (simp add: batches_20 length_generateSerialNumbers CONFIG_def)
  obtain q' p' w' where fl: "fetch_loop ?E CONFIG [take 10 ?xs, take 10 (drop 10 ?xs)]
             (new_queue (RATE_LIMIT_MS CONFIG), ?p0, world_at 100000) = (q', p', w')"
    by (cases "fetch_loop ?E CONFIG [take 10 ?xs, take 10 (drop 10 ?xs)]
             (new_queue (RATE_LIMIT_MS CONFIG), ?p0, world_at 100000)") auto
  note t = limited_once_two_batches [OF fl]
  define r where "r = \<lparr> allResults = allResults p', successCount = successCount p',
      failureCount = failureCount p', totalDevices = length ?xs,
      online = length (filter (\<lambda>d. status d = ''Online'') (allResults p')),
      offline = length (filter (\<lambda>d. status d = ''Offline'') (allResults p')) \<rparr>"
  have run: "fetchAllDeviceData_of ?E CONFIG 20 (world_at 100000) = Some (r, w')"
    by (simp add: fetchAllDeviceData_of_def Let_def cb fl r_def del: fetch_loop.simps)
  from t have c: "successCount r = 20 \<and> failureCount r = 0"
    by (simp add: r_def length_generateSerialNumbers)
  have g: "102010 - 102005 < RATE_LIMIT_MS CONFIG" by (simp add: CONFIG_def)
  from run t c g show ?thesis by (intro exI [of _ r] exI [of _ w']) simp
qed

end
